theory Spec2Isabelle
  imports Main
begin

section \<open>The pin manager of js-ipfs (src/core/components/pin/pin-manager.js)\<close>

text \<open>
  The module keeps two in-memory sets of pinned keys (direct and recursive), a cache of
  the two DAG links last written, and persists both sets through collaborators it is
  given: a CID library, a DAG store, a repository with a datastore, and the pin-set
  codec. The collaborators are not part of the module, so the model takes them as one
  record of functions over an opaque store state \<open>'w\<close>; every callback-style call
  returns its outcome together with the store it leaves behind.

  Asynchronous control flow is modelled sequentially: tasks given to \<open>series\<close>,
  \<open>waterfall\<close>, \<open>parallel\<close>, \<open>eachLimit\<close> and \<open>detectLimit\<close> run one after the
  other in array order.
\<close>

subsection \<open>Values\<close>

text \<open>What \<open>new CID(...)\<close> is given in this module: a key string or a Buffer.\<close>

datatype 'b cid_source = FromString string | FromBuffer 'b

text \<open>
  A failure is either an error handed to a callback by a collaborator and passed on
  verbatim, or an exception thrown synchronously (by \<open>new CID\<close> on a malformed value).
\<close>

datatype 'e failure = CallbackError 'e | Thrown 'e

text \<open>\<open>DAGLink\<close> of ipld-dag-pb: a name, the size of the target and the target's CID.\<close>

record 'c dag_link =
  Name :: string
  Tsize :: nat
  Hash :: 'c

text \<open>
  The collaborators. Buffers \<open>'b\<close>, CIDs \<open>'c\<close> and DAG nodes \<open>'n\<close> are opaque here.
  \<open>newCID\<close> is the constructor \<open>new CID(...)\<close>, which throws on a malformed value;
  \<open>createNode\<close> is \<open>DAGNode.create\<close>; \<open>dagPut\<close> is \<open>dag.put\<close> with the options the
  module always passes (version 0, dag-pb, sha2-256, no preload) and \<open>dagGet\<close> is
  \<open>dag.get\<close> followed by \<open>.value\<close>; \<open>storeSet\<close>, \<open>loadSet\<close> and \<open>hasDescendant\<close> are the
  pin-set codec of \<open>./pin-set\<close>; \<open>errorMessage\<close> reads \<open>err.message\<close>.
\<close>

record ('b, 'c, 'n, 'e, 'w) env =
  newCID :: "'b cid_source \<Rightarrow> 'e + 'c"
  cidBuffer :: "'c \<Rightarrow> 'b"
  toBaseEncodedString :: "'c \<Rightarrow> string"
  emptyBuffer :: "'b"
  createNode :: "'b \<Rightarrow> 'c dag_link list \<Rightarrow> 'e + 'n"
  nodeSize :: "'n \<Rightarrow> nat"
  nodeCid :: "'n \<Rightarrow> 'e + 'c"
  dagPut :: "'n \<Rightarrow> 'w \<Rightarrow> ('e + 'c) \<times> 'w"
  dagGet :: "'c \<Rightarrow> 'w \<Rightarrow> ('e + 'n) \<times> 'w"
  dagGetRecursive :: "'b \<Rightarrow> 'w \<Rightarrow> ('e + 'n list) \<times> 'w"
  storeSet :: "'b list \<Rightarrow> string \<Rightarrow> 'w \<Rightarrow> ('e + 'n \<times> 'c) \<times> 'w"
  loadSet :: "'n \<Rightarrow> string \<Rightarrow> 'w \<Rightarrow> ('e + 'b list) \<times> 'w"
  hasDescendant :: "'n \<Rightarrow> string \<Rightarrow> 'w \<Rightarrow> ('e + bool) \<times> 'w"
  repoClosed :: "'w \<Rightarrow> bool"
  repoOpen :: "'w \<Rightarrow> ('e + unit) \<times> 'w"
  datastoreOpen :: "'w \<Rightarrow> ('e + unit) \<times> 'w"
  datastoreHas :: "string \<Rightarrow> 'w \<Rightarrow> ('e + bool) \<times> 'w"
  datastoreGet :: "string \<Rightarrow> 'w \<Rightarrow> ('e + 'b) \<times> 'w"
  datastorePut :: "string \<Rightarrow> 'b \<Rightarrow> 'w \<Rightarrow> ('e + unit) \<times> 'w"
  errorMessage :: "'e \<Rightarrow> string"

text \<open>
  A JavaScript \<open>Set\<close> of strings keeps insertion order and holds no duplicates: a list,
  with \<open>add\<close> appending a key that is not there yet and \<open>delete\<close> removing it.
\<close>

definition set_add :: "string \<Rightarrow> string list \<Rightarrow> string list" where
  "set_add k s = (if k \<in> set s then s else s @ [k])"

definition set_delete :: "string \<Rightarrow> string list \<Rightarrow> string list" where
  "set_delete k s = filter (\<lambda>x. x \<noteq> k) s"

definition new_Set :: "string list \<Rightarrow> string list" where
  "new_Set ks = foldl (\<lambda>s k. set_add k s) [] ks"

text \<open>
  Modelled from the spec: the lock of \<open>./lock\<close> (not among the sources). The spec gives
  it shared-exclusive scoping; in the sequential model an acquisition is granted at once
  and recorded.
\<close>

datatype lock_mode = ReadLock | WriteLock

record 'c pin_manager =
  directPins :: "string list"
  recursivePins :: "string list"
  linkCache :: "string \<rightharpoonup> 'c dag_link"
  lockLog :: "lock_mode list"

definition readLock :: "'c pin_manager \<Rightarrow> 'c pin_manager" where
  "readLock pm = pm\<lparr>lockLog := lockLog pm @ [ReadLock]\<rparr>"

definition writeLock :: "'c pin_manager \<Rightarrow> 'c pin_manager" where
  "writeLock pm = pm\<lparr>lockLog := lockLog pm @ [WriteLock]\<rparr>"

text \<open>The constructor.\<close>

definition new_PinManager :: "'c pin_manager" where
  "new_PinManager =
     \<lparr>directPins = [], recursivePins = [], linkCache = Map.empty, lockLog = []\<rparr>"

abbreviation PIN_DS_KEY :: string where
  "PIN_DS_KEY \<equiv> ''/local/pins''"

abbreviation direct :: string where "direct \<equiv> ''direct''"
abbreviation recursive :: string where "recursive \<equiv> ''recursive''"
abbreviation indirect :: string where "indirect \<equiv> ''indirect''"
abbreviation all :: string where "all \<equiv> ''all''"

definition PinTypes :: "(string \<times> string) list" where
  "PinTypes = [(direct, direct), (recursive, recursive), (indirect, indirect), (all, all)]"

subsection \<open>toB58String, directKeys, recursiveKeys\<close>

definition toB58String :: "('b, 'c, 'n, 'e, 'w) env \<Rightarrow> 'b cid_source \<Rightarrow> 'e failure + string" where
  "toB58String E hash =
     (case newCID E hash of
        Inl e \<Rightarrow> Inl (Thrown e)
      | Inr c \<Rightarrow> Inr (toBaseEncodedString E c))"

text \<open>\<open>xs.map(f)\<close> where \<open>f\<close> may throw: the first exception ends the map.\<close>

fun map_throwing :: "('a \<Rightarrow> 'e failure + 'r) \<Rightarrow> 'a list \<Rightarrow> 'e failure + 'r list" where
  "map_throwing f [] = Inr []"
| "map_throwing f (x # xs) =
     (case f x of
        Inl e \<Rightarrow> Inl e
      | Inr y \<Rightarrow> (case map_throwing f xs of Inl e \<Rightarrow> Inl e | Inr ys \<Rightarrow> Inr (y # ys)))"

definition keyBuffer :: "('b, 'c, 'n, 'e, 'w) env \<Rightarrow> string \<Rightarrow> 'e failure + 'b" where
  "keyBuffer E k =
     (case newCID E (FromString k) of
        Inl e \<Rightarrow> Inl (Thrown e)
      | Inr c \<Rightarrow> Inr (cidBuffer E c))"

definition directKeys :: "('b, 'c, 'n, 'e, 'w) env \<Rightarrow> 'c pin_manager \<Rightarrow> 'e failure + 'b list" where
  "directKeys E pm = map_throwing (keyBuffer E) (directPins pm)"

definition recursiveKeys :: "('b, 'c, 'n, 'e, 'w) env \<Rightarrow> 'c pin_manager \<Rightarrow> 'e failure + 'b list" where
  "recursiveKeys E pm = map_throwing (keyBuffer E) (recursivePins pm)"

subsection \<open>checkPinType\<close>

text \<open>
  The argument of \<open>checkPinType\<close> is any JavaScript value, of any of the language's
  types. A number or a bigint is given by its decimal rendering and a symbol by its
  description. An object (an array, too) or a function is given by what converting it
  to a string does, since that is all the function can observe of it: the conversion
  gives a string, or throws, a \<open>TypeError\<close> for an object without a usable
  \<open>toString\<close> (such as \<open>Object.create(null)\<close>) or whatever the object's own
  \<open>toString\<close> throws.
\<close>

datatype js_exception = TypeError | UserException string

datatype js_value =
    JString string
  | JUndefined
  | JNull
  | JBoolean bool
  | JNumber string
  | JBigint string
  | JSymbol string
  | JObject "js_exception + string"
  | JFunction "js_exception + string"

fun typeof :: "js_value \<Rightarrow> string" where
  "typeof (JString s) = ''string''"
| "typeof JUndefined = ''undefined''"
| "typeof JNull = ''object''"
| "typeof (JBoolean b) = ''boolean''"
| "typeof (JNumber r) = ''number''"
| "typeof (JBigint r) = ''bigint''"
| "typeof (JSymbol d) = ''symbol''"
| "typeof (JObject r) = ''object''"
| "typeof (JFunction r) = ''function''"

text \<open>
  The value inside \<open>${...}\<close>: the string it renders to, or the exception thrown. A
  symbol is never converted to a string implicitly: the template literal throws a
  \<open>TypeError\<close>.
\<close>

fun template :: "js_value \<Rightarrow> js_exception + string" where
  "template (JString s) = Inr s"
| "template JUndefined = Inr ''undefined''"
| "template JNull = Inr ''null''"
| "template (JBoolean b) = Inr (if b then ''true'' else ''false'')"
| "template (JNumber r) = Inr r"
| "template (JBigint r) = Inr r"
| "template (JSymbol d) = Inl TypeError"
| "template (JObject r) = r"
| "template (JFunction r) = r"

record coded_error =
  message :: string
  code :: string

text \<open>
  \<open>invalidPinTypeErr\<close> builds its message with a template literal around \<open>type\<close>: an
  exception thrown there leaves the function, and its caller, before any error object
  exists.
\<close>

definition invalidPinTypeErr :: "js_value \<Rightarrow> js_exception + coded_error" where
  "invalidPinTypeErr type =
     (case template type of
        Inl x \<Rightarrow> Inl x
      | Inr r \<Rightarrow>
          Inr \<lparr>message = ''Invalid type '' @ [CHR 0x27] @ r @ [CHR 0x27]
                          @ '', must be one of {direct, indirect, recursive, all}'',
               code = ''ERR_INVALID_PIN_TYPE''\<rparr>)"

text \<open>\<open>Object.keys(PinTypes).includes(type)\<close> compares with strict equality.\<close>

definition array_includes :: "string list \<Rightarrow> js_value \<Rightarrow> bool" where
  "array_includes ks v = list_ex (\<lambda>k. v = JString k) ks"

text \<open>
  \<open>checkPinType\<close> returns the error object for an invalid type and \<open>undefined\<close>
  (\<open>None\<close>) for a valid one; \<open>Inl\<close> is an exception thrown out of it.
\<close>

definition checkPinType :: "js_value \<Rightarrow> js_exception + coded_error option" where
  "checkPinType type =
     (if typeof type \<noteq> ''string'' \<or> \<not> array_includes (map fst PinTypes) type
      then (case invalidPinTypeErr type of Inl x \<Rightarrow> Inl x | Inr err \<Rightarrow> Inr (Some err))
      else Inr None)"

subsection \<open>isPinnedWithType\<close>

datatype 'c pin_reason = ByType string | ByRoot 'c

record 'c pin_result =
  key :: string
  pinned :: bool
  reason :: "'c pin_reason option"

text \<open>
  The iteratee of \<open>detectLimit\<close>: fetch the recursive root, then ask the codec whether
  the key is below it. The first error ends the search, and so does the first hit.
\<close>

fun detectRoot :: "('b, 'c, 'n, 'e, 'w) env \<Rightarrow> string \<Rightarrow> 'c list \<Rightarrow> 'w
    \<Rightarrow> ('e failure + 'c option) \<times> 'w" where
  "detectRoot E k [] w = (Inr None, w)"
| "detectRoot E k (cid # cids) w =
     (case dagGet E cid w of
        (Inl e, w1) \<Rightarrow> (Inl (CallbackError e), w1)
      | (Inr node, w1) \<Rightarrow>
          (case hasDescendant E node k w1 of
             (Inl e, w2) \<Rightarrow> (Inl (CallbackError e), w2)
           | (Inr found, w2) \<Rightarrow>
               if found then (Inr (Some cid), w2) else detectRoot E k cids w2))"

definition recursiveCids :: "('b, 'c, 'n, 'e, 'w) env \<Rightarrow> 'c pin_manager \<Rightarrow> 'e failure + 'c list" where
  "recursiveCids E pm =
     (case recursiveKeys E pm of
        Inl e \<Rightarrow> Inl e
      | Inr bufs \<Rightarrow>
          map_throwing
            (\<lambda>b. case newCID E (FromBuffer b) of Inl e \<Rightarrow> Inl (Thrown e) | Inr c \<Rightarrow> Inr c)
            bufs)"

definition isPinnedIndirect :: "('b, 'c, 'n, 'e, 'w) env \<Rightarrow> string \<Rightarrow> 'c pin_manager \<times> 'w
    \<Rightarrow> ('e failure + 'c pin_result) \<times> 'c pin_manager \<times> 'w" where
  "isPinnedIndirect E k st =
     (case st of (pm, w) \<Rightarrow>
        let pm1 = readLock pm in
        (case recursiveCids E pm1 of
           Inl e \<Rightarrow> (Inl e, pm1, w)
         | Inr cids \<Rightarrow>
             (case detectRoot E k cids w of
                (Inl e, w1) \<Rightarrow> (Inl e, pm1, w1)
              | (Inr cid, w1) \<Rightarrow>
                  (Inr \<lparr>key = k, pinned = (cid \<noteq> None), reason = map_option ByRoot cid\<rparr>,
                   pm1, w1))))"

definition isPinnedWithType :: "('b, 'c, 'n, 'e, 'w) env \<Rightarrow> 'b cid_source \<Rightarrow> string
    \<Rightarrow> 'c pin_manager \<times> 'w \<Rightarrow> ('e failure + 'c pin_result) \<times> 'c pin_manager \<times> 'w" where
  "isPinnedWithType E multihash type st =
     (case st of (pm, w) \<Rightarrow>
        (case toB58String E multihash of
           Inl e \<Rightarrow> (Inl e, pm, w)
         | Inr k \<Rightarrow>
             if (type = recursive \<or> type = all) \<and> k \<in> set (recursivePins pm)
             then (Inr \<lparr>key = k, pinned = True, reason = Some (ByType recursive)\<rparr>, pm, w)
             else if type = recursive
             then (Inr \<lparr>key = k, pinned = False, reason = None\<rparr>, pm, w)
             else if (type = direct \<or> type = all) \<and> k \<in> set (directPins pm)
             then (Inr \<lparr>key = k, pinned = True, reason = Some (ByType direct)\<rparr>, pm, w)
             else if type = direct
             then (Inr \<lparr>key = k, pinned = False, reason = None\<rparr>, pm, w)
             else isPinnedIndirect E k (pm, w)))"

subsection \<open>_flushPins\<close>

text \<open>
  The first two tasks of the \<open>parallel\<close> block: reuse the cached link, or encode the
  set, build the link and cache it. \<open>new DAGLink\<close> is given the CID \<open>storeSet\<close> returned,
  so its constructor does not throw here.
\<close>

definition linkTask :: "('b, 'c, 'n, 'e, 'w) env \<Rightarrow> string
    \<Rightarrow> ('c pin_manager \<Rightarrow> 'e failure + 'b list) \<Rightarrow> 'c pin_manager \<times> 'w
    \<Rightarrow> ('e failure + 'c dag_link) \<times> 'c pin_manager \<times> 'w" where
  "linkTask E type keys st =
     (case st of (pm, w) \<Rightarrow>
        (case linkCache pm type of
           Some l \<Rightarrow> (Inr l, pm, w)
         | None \<Rightarrow>
             (case keys pm of
                Inl e \<Rightarrow> (Inl e, pm, w)
              | Inr bufs \<Rightarrow>
                  (case storeSet E bufs type w of
                     (Inl e, w1) \<Rightarrow> (Inl (CallbackError e), pm, w1)
                   | (Inr (node, cid), w1) \<Rightarrow>
                       let l = \<lparr>Name = type, Tsize = nodeSize E node, Hash = cid\<rparr>
                       in (Inr l, pm\<lparr>linkCache := (linkCache pm)(type \<mapsto> l)\<rparr>, w1)))))"

text \<open>The third task: make sure the empty node exists.\<close>

definition emptyTask :: "('b, 'c, 'n, 'e, 'w) env \<Rightarrow> 'w \<Rightarrow> ('e failure + unit) \<times> 'w" where
  "emptyTask E w =
     (case createNode E (emptyBuffer E) [] of
        Inl e \<Rightarrow> (Inl (CallbackError e), w)
      | Inr emptyNode \<Rightarrow>
          (case dagPut E emptyNode w of
             (Inl e, w1) \<Rightarrow> (Inl (CallbackError e), w1)
           | (Inr cid, w1) \<Rightarrow> (Inr (), w1)))"

text \<open>
  The tasks after the \<open>parallel\<close> block: build and store the root node, reopen the
  repository when it is closed, and write the root's multihash under PIN_DS_KEY. The
  result is the root node with the multihash attached to it.
\<close>

definition writeRoot :: "('b, 'c, 'n, 'e, 'w) env \<Rightarrow> 'c dag_link \<Rightarrow> 'c dag_link \<Rightarrow> 'w
    \<Rightarrow> ('e failure + 'n \<times> 'b) \<times> 'w" where
  "writeRoot E dLink rLink w =
     (case createNode E (emptyBuffer E) [dLink, rLink] of
        Inl e \<Rightarrow> (Inl (CallbackError e), w)
      | Inr root \<Rightarrow>
          (case dagPut E root w of
             (Inl e, w1) \<Rightarrow> (Inl (CallbackError e), w1)
           | (Inr cid, w1) \<Rightarrow>
               (case (if repoClosed E w1 then repoOpen E w1 else (Inr (), w1)) of
                  (Inl e, w2) \<Rightarrow> (Inl (CallbackError e), w2)
                | (Inr u, w2) \<Rightarrow>
                    (case datastorePut E PIN_DS_KEY (cidBuffer E cid) w2 of
                       (Inl e, w3) \<Rightarrow> (Inl (CallbackError e), w3)
                     | (Inr u', w3) \<Rightarrow> (Inr (root, cidBuffer E cid), w3)))))"

text \<open>
  An exception thrown by \<open>directKeys()\<close> or \<open>recursiveKeys()\<close> leaves the function at
  once. A callback error of one of the three parallel tasks does not stop the others,
  which have been started already; the first error in task order is reported.
\<close>

definition flushPins :: "('b, 'c, 'n, 'e, 'w) env \<Rightarrow> 'c pin_manager \<times> 'w
    \<Rightarrow> ('e failure + 'n \<times> 'b) \<times> 'c pin_manager \<times> 'w" where
  "flushPins E st =
     (case linkTask E direct (directKeys E) st of
        (Inl (Thrown e), pm1, w1) \<Rightarrow> (Inl (Thrown e), pm1, w1)
      | (d, pm1, w1) \<Rightarrow>
          (case linkTask E recursive (recursiveKeys E) (pm1, w1) of
             (Inl (Thrown e), pm2, w2) \<Rightarrow> (Inl (Thrown e), pm2, w2)
           | (r, pm2, w2) \<Rightarrow>
               (case emptyTask E w2 of
                  (t, w3) \<Rightarrow>
                    (case (d, r, t) of
                       (Inl e, _, _) \<Rightarrow> (Inl e, pm2, w3)
                     | (Inr dLink, Inl e, _) \<Rightarrow> (Inl e, pm2, w3)
                     | (Inr dLink, Inr rLink, Inl e) \<Rightarrow> (Inl e, pm2, w3)
                     | (Inr dLink, Inr rLink, Inr u) \<Rightarrow>
                         (case writeRoot E dLink rLink w3 of
                            (res, w4) \<Rightarrow> (res, pm2, w4))))))"

subsection \<open>addDirectPins, addRecursivePins, rmPins\<close>

text \<open>The result of an add or a remove: the empty array, or the root the flush wrote.\<close>

datatype ('n, 'b) mutation_result = EmptyArray | Root 'n 'b

definition flushed :: "('e failure + 'n \<times> 'b) \<times> 'c pin_manager \<times> 'w
    \<Rightarrow> ('e failure + ('n, 'b) mutation_result) \<times> 'c pin_manager \<times> 'w" where
  "flushed out =
     (case out of
        (Inl e, st) \<Rightarrow> (Inl e, st)
      | (Inr (root, mh), st) \<Rightarrow> (Inr (Root root mh), st))"

text \<open>
  \<open>_addPins\<close> is given the set it works on by reference: here as the field's selector
  and update function.
\<close>

definition addPins :: "('b, 'c, 'n, 'e, 'w) env \<Rightarrow> string list
    \<Rightarrow> ('c pin_manager \<Rightarrow> string list)
    \<Rightarrow> ((string list \<Rightarrow> string list) \<Rightarrow> 'c pin_manager \<Rightarrow> 'c pin_manager)
    \<Rightarrow> string \<Rightarrow> 'c pin_manager \<times> 'w
    \<Rightarrow> ('e failure + ('n, 'b) mutation_result) \<times> 'c pin_manager \<times> 'w" where
  "addPins E keys pinSet pinSet_update pinType st =
     (case st of (pm, w) \<Rightarrow>
        let pm1 = writeLock pm;
            keys1 = filter (\<lambda>k. k \<notin> set (pinSet pm1)) keys
        in if keys1 = [] then (Inr EmptyArray, pm1, w)
           else
             let pm2 = pm1\<lparr>linkCache := (linkCache pm1)(pinType := None)\<rparr>;
                 pm3 = foldl (\<lambda>p k. pinSet_update (set_add k) p) pm2 keys1
             in flushed (flushPins E (pm3, w)))"

definition addRecursivePins :: "('b, 'c, 'n, 'e, 'w) env \<Rightarrow> string list \<Rightarrow> 'c pin_manager \<times> 'w
    \<Rightarrow> ('e failure + ('n, 'b) mutation_result) \<times> 'c pin_manager \<times> 'w" where
  "addRecursivePins E keys st = addPins E keys recursivePins recursivePins_update recursive st"

definition addDirectPins :: "('b, 'c, 'n, 'e, 'w) env \<Rightarrow> string list \<Rightarrow> 'c pin_manager \<times> 'w
    \<Rightarrow> ('e failure + ('n, 'b) mutation_result) \<times> 'c pin_manager \<times> 'w" where
  "addDirectPins E keys st = addPins E keys directPins directPins_update direct st"

definition rmPin :: "bool \<Rightarrow> 'c pin_manager \<Rightarrow> string \<Rightarrow> 'c pin_manager" where
  "rmPin rec pm k =
     (if rec \<and> k \<in> set (recursivePins pm)
      then pm\<lparr>recursivePins := set_delete k (recursivePins pm)\<rparr>
      else pm\<lparr>directPins := set_delete k (directPins pm)\<rparr>)"

definition rmPins :: "('b, 'c, 'n, 'e, 'w) env \<Rightarrow> string list \<Rightarrow> bool \<Rightarrow> 'c pin_manager \<times> 'w
    \<Rightarrow> ('e failure + ('n, 'b) mutation_result) \<times> 'c pin_manager \<times> 'w" where
  "rmPins E keys rec st =
     (case st of (pm, w) \<Rightarrow>
        if keys = [] then (Inr EmptyArray, pm, w)
        else flushed (flushPins E (foldl (rmPin rec) (writeLock pm) keys, w)))"

subsection \<open>load\<close>

text \<open>
  The \<open>waterfall\<close> of \<open>load\<close>. A missing root key leaves it through an error whose
  message is \<open>No pins to load\<close>: the outcome \<open>Inr None\<close> here.
\<close>

definition readRoot :: "('b, 'c, 'n, 'e, 'w) env \<Rightarrow> 'w \<Rightarrow> ('e failure + 'n option) \<times> 'w" where
  "readRoot E w =
     (case (if repoClosed E w then datastoreOpen E w else (Inr (), w)) of
        (Inl e, w1) \<Rightarrow> (Inl (CallbackError e), w1)
      | (Inr u, w1) \<Rightarrow>
          (case datastoreHas E PIN_DS_KEY w1 of
             (Inl e, w2) \<Rightarrow> (Inl (CallbackError e), w2)
           | (Inr has, w2) \<Rightarrow>
               if \<not> has then (Inr None, w2)
               else
                 (case datastoreGet E PIN_DS_KEY w2 of
                    (Inl e, w3) \<Rightarrow> (Inl (CallbackError e), w3)
                  | (Inr mh, w3) \<Rightarrow>
                      (case newCID E (FromBuffer mh) of
                         Inl e \<Rightarrow> (Inl (Thrown e), w3)
                       | Inr cid \<Rightarrow>
                           (case dagGet E cid w3 of
                              (Inl e, w4) \<Rightarrow> (Inl (CallbackError e), w4)
                            | (Inr node, w4) \<Rightarrow> (Inr (Some node), w4))))))"

text \<open>
  The two \<open>loadSet\<close> calls and the replacement of the sets. \<open>directPins\<close> is assigned
  before the recursive keys are converted.
\<close>

definition loadSets :: "('b, 'c, 'n, 'e, 'w) env \<Rightarrow> 'n \<Rightarrow> 'c pin_manager \<times> 'w
    \<Rightarrow> ('e failure + unit) \<times> 'c pin_manager \<times> 'w" where
  "loadSets E pinRoot st =
     (case st of (pm, w) \<Rightarrow>
        (case loadSet E pinRoot recursive w of
           (r, w1) \<Rightarrow>
             (case loadSet E pinRoot direct w1 of
                (d, w2) \<Rightarrow>
                  (case (r, d) of
                     (Inl e, _) \<Rightarrow> (Inl (CallbackError e), pm, w2)
                   | (Inr rKeys, Inl e) \<Rightarrow> (Inl (CallbackError e), pm, w2)
                   | (Inr rKeys, Inr dKeys) \<Rightarrow>
                       (case map_throwing (\<lambda>b. toB58String E (FromBuffer b)) dKeys of
                          Inl e \<Rightarrow> (Inl e, pm, w2)
                        | Inr ds \<Rightarrow>
                            let pm1 = pm\<lparr>directPins := new_Set ds\<rparr> in
                            (case map_throwing (\<lambda>b. toB58String E (FromBuffer b)) rKeys of
                               Inl e \<Rightarrow> (Inl e, pm1, w2)
                             | Inr rs \<Rightarrow> (Inr (), pm1\<lparr>recursivePins := new_Set rs\<rparr>, w2)))))))"

definition load :: "('b, 'c, 'n, 'e, 'w) env \<Rightarrow> 'c pin_manager \<times> 'w
    \<Rightarrow> ('e failure + unit) \<times> 'c pin_manager \<times> 'w" where
  "load E st =
     (case st of (pm, w) \<Rightarrow>
        let pm1 = writeLock pm in
        (case readRoot E w of
           (Inl (Thrown e), w1) \<Rightarrow> (Inl (Thrown e), pm1, w1)
         | (Inl (CallbackError e), w1) \<Rightarrow>
             if errorMessage E e = ''No pins to load'' then (Inr (), pm1, w1)
             else (Inl (CallbackError e), pm1, w1)
         | (Inr None, w1) \<Rightarrow> (Inr (), pm1, w1)
         | (Inr (Some pinRoot), w1) \<Rightarrow> loadSets E pinRoot (pm1, w1)))"

subsection \<open>getIndirectKeys\<close>

text \<open>
  The callback of \<open>_getRecursive\<close>: every node is given its CID again
  (\<open>util.cid(util.serialize(node))\<close>, the collaborator \<open>nodeCid\<close>), and the CIDs are
  turned into strings by \<open>toString()\<close>, which is \<open>toBaseEncodedString()\<close>.
\<close>

definition nodeKeys :: "('b, 'c, 'n, 'e, 'w) env \<Rightarrow> 'n list \<Rightarrow> 'e failure + string list" where
  "nodeKeys E nodes =
     (case map_throwing
             (\<lambda>n. case nodeCid E n of Inl e \<Rightarrow> Inl (CallbackError e) | Inr c \<Rightarrow> Inr c) nodes of
        Inl e \<Rightarrow> Inl e
      | Inr cids \<Rightarrow> Inr (map (toBaseEncodedString E) cids))"

text \<open>The iteratee of \<open>eachLimit\<close>, over the recursive keys; \<open>acc\<close> is \<open>indirectKeys\<close>.\<close>

fun eachRoot :: "('b, 'c, 'n, 'e, 'w) env \<Rightarrow> string list \<Rightarrow> 'b list \<Rightarrow> string list \<Rightarrow> 'w
    \<Rightarrow> ('e failure + string list) \<times> 'w" where
  "eachRoot E rpins [] acc w = (Inr acc, w)"
| "eachRoot E rpins (multihash # rest) acc w =
     (case dagGetRecursive E multihash w of
        (Inl e, w1) \<Rightarrow> (Inl (CallbackError e), w1)
      | (Inr nodes, w1) \<Rightarrow>
          (case nodeKeys E nodes of
             Inl e \<Rightarrow> (Inl e, w1)
           | Inr ks \<Rightarrow>
               eachRoot E rpins rest
                 (foldl (\<lambda>s k. set_add k s) acc (filter (\<lambda>k. k \<notin> set rpins) ks)) w1))"

definition getIndirectKeys :: "('b, 'c, 'n, 'e, 'w) env \<Rightarrow> 'c pin_manager \<times> 'w
    \<Rightarrow> ('e failure + string list) \<times> 'c pin_manager \<times> 'w" where
  "getIndirectKeys E st =
     (case st of (pm, w) \<Rightarrow>
        let pm1 = readLock pm in
        (case recursiveKeys E pm1 of
           Inl e \<Rightarrow> (Inl e, pm1, w)
         | Inr bufs \<Rightarrow>
             (case eachRoot E (recursivePins pm1) bufs [] w of
                (res, w1) \<Rightarrow> (res, pm1, w1))))"

section \<open>Specification-level definitions\<close>

subsection \<open>Candidate keys of the indirect set\<close>

text \<open>
  The specification of \<open>getIndirectKeys\<close> in its own words: collect the addresses of
  every node in the closure of every recursive root into a candidate list; the
  recursive pins are removed from it afterwards.
\<close>

fun candidateKeys :: "('b, 'c, 'n, 'e, 'w) env \<Rightarrow> 'b list \<Rightarrow> 'w
    \<Rightarrow> ('e failure + string list) \<times> 'w" where
  "candidateKeys E [] w = (Inr [], w)"
| "candidateKeys E (multihash # rest) w =
     (case dagGetRecursive E multihash w of
        (Inl e, w1) \<Rightarrow> (Inl (CallbackError e), w1)
      | (Inr nodes, w1) \<Rightarrow>
          (case nodeKeys E nodes of
             Inl e \<Rightarrow> (Inl e, w1)
           | Inr ks \<Rightarrow>
               (case candidateKeys E rest w1 of
                  (Inl e, w2) \<Rightarrow> (Inl e, w2)
                | (Inr others, w2) \<Rightarrow> (Inr (ks @ others), w2))))"

subsection \<open>Canonical keys\<close>

text \<open>
  A key string is canonical when it is the string \<open>load\<close> would rebuild from the
  buffer \<open>directKeys\<close> and \<open>recursiveKeys\<close> derive from it.
\<close>

definition canonical :: "('b, 'c, 'n, 'e, 'w) env \<Rightarrow> string \<Rightarrow> bool" where
  "canonical E k =
     (case keyBuffer E k of
        Inl e \<Rightarrow> False
      | Inr b \<Rightarrow> toB58String E (FromBuffer b) = Inr k)"

subsection \<open>Descent below a recursive root\<close>

text \<open>The key \<open>k\<close> is below the root \<open>cid\<close> in the store \<open>w\<close>, as the codec tells it.\<close>

definition below :: "('b, 'c, 'n, 'e, 'w) env \<Rightarrow> string \<Rightarrow> 'w \<Rightarrow> 'c \<Rightarrow> bool" where
  "below E k w cid =
     (case dagGet E cid w of
        (Inl e, w1) \<Rightarrow> False
      | (Inr node, w1) \<Rightarrow> fst (hasDescendant E node k w1) = Inr True)"

subsection \<open>The contract of the stores\<close>

text \<open>Queries leave the store as it is.\<close>

definition quiet :: "('b, 'c, 'n, 'e, 'w) env \<Rightarrow> bool" where
  "quiet E \<longleftrightarrow>
     (\<forall>c w. snd (dagGet E c w) = w) \<and>
     (\<forall>n k w. snd (hasDescendant E n k w) = w) \<and>
     (\<forall>n name w. snd (loadSet E n name w) = w) \<and>
     (\<forall>k w. snd (datastoreHas E k w) = w) \<and>
     (\<forall>k w. snd (datastoreGet E k w) = w)"

text \<open>One write of a collaborator, whatever its outcome.\<close>

definition writes :: "('b, 'c, 'n, 'e, 'w) env \<Rightarrow> 'w \<Rightarrow> 'w \<Rightarrow> bool" where
  "writes E w w' \<longleftrightarrow>
     (\<exists>n. snd (dagPut E n w) = w') \<or>
     (\<exists>bufs name. snd (storeSet E bufs name w) = w') \<or>
     snd (repoOpen E w) = w' \<or>
     (\<exists>k v. snd (datastorePut E k v w) = w')"

inductive later :: "('b, 'c, 'n, 'e, 'w) env \<Rightarrow> 'w \<Rightarrow> 'w \<Rightarrow> bool" for E where
  later_refl: "later E w w"
| later_step: "later E w w1 \<Longrightarrow> writes E w1 w2 \<Longrightarrow> later E w w2"

text \<open>
  The contract the round trip relies on: a node that was put is found under the CID
  rebuilt from its buffer, in every later store; the value written under a datastore
  key is the value read back; and \<open>loadSet\<close> inverts \<open>storeSet\<close>, reading the set
  through the link of that name in any node created with it.
\<close>

definition store_contract :: "('b, 'c, 'n, 'e, 'w) env \<Rightarrow> bool" where
  "store_contract E \<longleftrightarrow>
     quiet E \<and>
     (\<forall>n w c w1 w2. dagPut E n w = (Inr c, w1) \<and> later E w1 w2 \<longrightarrow>
        (\<exists>c'. newCID E (FromBuffer (cidBuffer E c)) = Inr c' \<and> fst (dagGet E c' w2) = Inr n)) \<and>
     (\<forall>k v w w1. datastorePut E k v w = (Inr (), w1) \<longrightarrow>
        fst (datastoreHas E k w1) = Inr True \<and> fst (datastoreGet E k w1) = Inr v) \<and>
     (\<forall>bufs name w node c w1 w2 d links root l.
        storeSet E bufs name w = (Inr (node, c), w1) \<and> later E w1 w2 \<and>
        createNode E d links = Inr root \<and>
        find (\<lambda>l. Name l = name) links = Some l \<and> Hash l = c \<longrightarrow>
        (\<exists>bs. fst (loadSet E root name w2) = Inr bs \<and> set bs = set bufs))"

text \<open>
  A link-cache entry is fresh when it is the link of an encoding of the current
  members of its set, made in a store the current one is later than.
\<close>

definition fresh_entry :: "('b, 'c, 'n, 'e, 'w) env \<Rightarrow> string
    \<Rightarrow> 'e failure + 'b list \<Rightarrow> 'c pin_manager \<Rightarrow> 'w \<Rightarrow> bool" where
  "fresh_entry E name keys pm w \<longleftrightarrow>
     (case linkCache pm name of
        None \<Rightarrow> True
      | Some l \<Rightarrow>
          (\<exists>bufs w0 node w1. keys = Inr bufs \<and>
             storeSet E bufs name w0 = (Inr (node, Hash l), w1) \<and> later E w1 w \<and>
             Name l = name))"

definition fresh_cache :: "('b, 'c, 'n, 'e, 'w) env \<Rightarrow> 'c pin_manager \<Rightarrow> 'w \<Rightarrow> bool" where
  "fresh_cache E pm w \<longleftrightarrow>
     fresh_entry E direct (directKeys E pm) pm w \<and>
     fresh_entry E recursive (recursiveKeys E pm) pm w"

section \<open>A reference environment\<close>

text \<open>
  Modelled from the spec: the collaborators (CID library, content store, root
  datastore, pin-set codec), none of which is among the sources, as one in-memory
  instance that keeps the contracts the spec gives them, for running the manager on
  concrete inputs. Buffers, CIDs and errors are strings. A key string with a leading \<open>z\<close>
  names the same CID as the string without it, whose base encoded string is the
  string without it. Nodes are stored under an address computed from their content;
  the store refuses a node whose address is taken by another one. A set is encoded as
  one node with a link per member. The traversals go four levels deep.
\<close>

datatype ref_node = Node (nodeData: string) (nodeLinks: "string dag_link list")

record ref_world =
  ref_blocks :: "string \<rightharpoonup> ref_node"
  ref_datastore :: "string \<rightharpoonup> string"
  ref_closed :: bool
  ref_readOnly :: bool

definition ref_newCID :: "string cid_source \<Rightarrow> string + string" where
  "ref_newCID src =
     (case src of
        FromString s \<Rightarrow>
          (case s of
             [] \<Rightarrow> Inl ''invalid CID''
           | c # r \<Rightarrow> if c = CHR ''z'' \<and> r \<noteq> [] then Inr r else Inr s)
      | FromBuffer b \<Rightarrow> if b = [] then Inl ''invalid CID'' else Inr b)"

definition ref_cidOf :: "ref_node \<Rightarrow> string" where
  "ref_cidOf n =
     ''#'' @ nodeData n @ concat (map (\<lambda>l. ''/'' @ Name l @ '':'' @ Hash l) (nodeLinks n))"

definition ref_size :: "ref_node \<Rightarrow> nat" where
  "ref_size n = length (nodeData n) + sum_list (map Tsize (nodeLinks n))"

definition ref_put :: "ref_node \<Rightarrow> ref_world \<Rightarrow> (string + string) \<times> ref_world" where
  "ref_put n w =
     (case ref_blocks w (ref_cidOf n) of
        None \<Rightarrow> (Inr (ref_cidOf n), w\<lparr>ref_blocks := (ref_blocks w)(ref_cidOf n \<mapsto> n)\<rparr>)
      | Some m \<Rightarrow> if m = n then (Inr (ref_cidOf n), w) else (Inl ''address taken'', w))"

definition ref_get :: "string \<Rightarrow> ref_world \<Rightarrow> (string + ref_node) \<times> ref_world" where
  "ref_get c w =
     (case ref_blocks w c of
        None \<Rightarrow> (Inl ''ERR_NOT_FOUND'', w)
      | Some n \<Rightarrow> (Inr n, w))"

fun ref_closure :: "nat \<Rightarrow> (string \<rightharpoonup> ref_node) \<Rightarrow> string \<Rightarrow> ref_node list" where
  "ref_closure 0 bs c = []"
| "ref_closure (Suc d) bs c =
     (case bs c of
        None \<Rightarrow> []
      | Some n \<Rightarrow> n # concat (map (\<lambda>l. ref_closure d bs (Hash l)) (nodeLinks n)))"

fun ref_descends :: "nat \<Rightarrow> (string \<rightharpoonup> ref_node) \<Rightarrow> ref_node \<Rightarrow> string \<Rightarrow> bool" where
  "ref_descends 0 bs n k = False"
| "ref_descends (Suc d) bs n k =
     list_ex
       (\<lambda>l. Hash l = k \<or> (case bs (Hash l) of None \<Rightarrow> False | Some m \<Rightarrow> ref_descends d bs m k))
       (nodeLinks n)"

definition ref_getRecursive :: "string \<Rightarrow> ref_world \<Rightarrow> (string + ref_node list) \<times> ref_world" where
  "ref_getRecursive c w =
     (case ref_blocks w c of
        None \<Rightarrow> (Inl ''ERR_NOT_FOUND'', w)
      | Some n \<Rightarrow> (Inr (ref_closure (Suc (Suc (Suc (Suc 0)))) (ref_blocks w) c), w))"

definition ref_storeSet :: "string list \<Rightarrow> string \<Rightarrow> ref_world
    \<Rightarrow> (string + ref_node \<times> string) \<times> ref_world" where
  "ref_storeSet bufs name w =
     (case ref_put (Node [] (map (\<lambda>b. \<lparr>Name = [], Tsize = 1, Hash = b\<rparr>) bufs)) w of
        (Inl e, w1) \<Rightarrow> (Inl e, w1)
      | (Inr c, w1) \<Rightarrow>
          (Inr (Node [] (map (\<lambda>b. \<lparr>Name = [], Tsize = 1, Hash = b\<rparr>) bufs), c), w1))"

definition ref_loadSet :: "ref_node \<Rightarrow> string \<Rightarrow> ref_world \<Rightarrow> (string + string list) \<times> ref_world" where
  "ref_loadSet root name w =
     (case find (\<lambda>l. Name l = name) (nodeLinks root) of
        None \<Rightarrow> (Inl ''no link of that name'', w)
      | Some l \<Rightarrow>
          (case ref_blocks w (Hash l) of
             None \<Rightarrow> (Inl ''ERR_NOT_FOUND'', w)
           | Some n \<Rightarrow> (Inr (map Hash (nodeLinks n)), w)))"

definition ref_datastorePut :: "string \<Rightarrow> string \<Rightarrow> ref_world \<Rightarrow> (string + unit) \<times> ref_world" where
  "ref_datastorePut k v w =
     (if ref_readOnly w then (Inl ''read-only datastore'', w)
      else (Inr (), w\<lparr>ref_datastore := (ref_datastore w)(k \<mapsto> v)\<rparr>))"

definition ref_datastoreGet :: "string \<Rightarrow> ref_world \<Rightarrow> (string + string) \<times> ref_world" where
  "ref_datastoreGet k w =
     (case ref_datastore w k of
        None \<Rightarrow> (Inl ''ERR_NOT_FOUND'', w)
      | Some v \<Rightarrow> (Inr v, w))"

definition ref_env :: "(string, string, ref_node, string, ref_world) env" where
  "ref_env =
     \<lparr>newCID = ref_newCID,
      cidBuffer = (\<lambda>c. c),
      toBaseEncodedString = (\<lambda>c. c),
      emptyBuffer = [],
      createNode = (\<lambda>d ls. Inr (Node d ls)),
      nodeSize = ref_size,
      nodeCid = (\<lambda>n. Inr (ref_cidOf n)),
      dagPut = ref_put,
      dagGet = ref_get,
      dagGetRecursive = ref_getRecursive,
      storeSet = ref_storeSet,
      loadSet = ref_loadSet,
      hasDescendant =
        (\<lambda>n k w. (Inr (ref_descends (Suc (Suc (Suc (Suc 0)))) (ref_blocks w) n k), w)),
      repoClosed = ref_closed,
      repoOpen = (\<lambda>w. (Inr (), w\<lparr>ref_closed := False\<rparr>)),
      datastoreOpen = (\<lambda>w. (Inr (), w\<lparr>ref_closed := False\<rparr>)),
      datastoreHas = (\<lambda>k w. (Inr (ref_datastore w k \<noteq> None), w)),
      datastoreGet = ref_datastoreGet,
      datastorePut = ref_datastorePut,
      errorMessage = (\<lambda>e. e)\<rparr>"

definition ref_empty :: ref_world where
  "ref_empty =
     \<lparr>ref_blocks = Map.empty, ref_datastore = Map.empty, ref_closed = False,
      ref_readOnly = False\<rparr>"

section \<open>Properties\<close>

subsection \<open>The in-memory sets under the operations\<close>

lemma set_foldl_set_add: "set (foldl (\<lambda>s k. set_add k s) acc ks) = set acc \<union> set ks"
  by (induction ks arbitrary: acc) (auto simp: set_add_def)

lemma distinct_foldl_set_add: "distinct acc \<Longrightarrow> distinct (foldl (\<lambda>s k. set_add k s) acc ks)"
  by (induction ks arbitrary: acc) (auto simp: set_add_def)

lemma foldl_directPins_update:
  "foldl (\<lambda>p k. directPins_update (set_add k) p) pm ks =
     pm\<lparr>directPins := foldl (\<lambda>s k. set_add k s) (directPins pm) ks\<rparr>"
  by (induction ks arbitrary: pm) simp_all

lemma foldl_recursivePins_update:
  "foldl (\<lambda>p k. recursivePins_update (set_add k) p) pm ks =
     pm\<lparr>recursivePins := foldl (\<lambda>s k. set_add k s) (recursivePins pm) ks\<rparr>"
  by (induction ks arbitrary: pm) simp_all

text \<open>A flush writes the link cache and the stores; it never touches the two sets.\<close>

lemma linkTask_sets:
  "linkTask E name keys (pm, w) = (res, pm', w') \<Longrightarrow>
     directPins pm' = directPins pm \<and> recursivePins pm' = recursivePins pm \<and>
     lockLog pm' = lockLog pm"
  by (auto simp: linkTask_def Let_def split: option.splits sum.splits prod.splits)

lemma flushPins_sets:
  assumes "flushPins E (pm, w) = (res, pm', w')"
  shows "directPins pm' = directPins pm \<and> recursivePins pm' = recursivePins pm \<and>
     lockLog pm' = lockLog pm"
proof -
  obtain d pm1 w1 where t1: "linkTask E direct (directKeys E) (pm, w) = (d, pm1, w1)"
    by (cases "linkTask E direct (directKeys E) (pm, w)") auto
  obtain r pm2 w2 where t2: "linkTask E recursive (recursiveKeys E) (pm1, w1) = (r, pm2, w2)"
    by (cases "linkTask E recursive (recursiveKeys E) (pm1, w1)") auto
  from assms t1 t2 have "pm' = pm1 \<or> pm' = pm2"
    by (auto simp: flushPins_def split: sum.splits prod.splits failure.splits)
  with linkTask_sets [OF t1] linkTask_sets [OF t2] show ?thesis by auto
qed

lemma flushed_sets:
  assumes "flushed (flushPins E (pm, w)) = (res, pm', w')"
  shows "directPins pm' = directPins pm \<and> recursivePins pm' = recursivePins pm \<and>
     lockLog pm' = lockLog pm"
proof -
  obtain r p v where f: "flushPins E (pm, w) = (r, p, v)"
    by (cases "flushPins E (pm, w)") auto
  with assms have "pm' = p"
    by (auto simp: flushed_def split: sum.splits prod.splits)
  with flushPins_sets [OF f] show ?thesis by simp
qed

lemma addDirectPins_memory:
  assumes "addDirectPins E keys (pm, w) = (res, pm', w')"
  shows "directPins pm' =
           foldl (\<lambda>s k. set_add k s) (directPins pm) (filter (\<lambda>k. k \<notin> set (directPins pm)) keys)
         \<and> recursivePins pm' = recursivePins pm"
proof (cases "filter (\<lambda>k. k \<notin> set (directPins pm)) keys = []")
  case True
  with assms show ?thesis
    by (auto simp: addDirectPins_def addPins_def writeLock_def Let_def)
next
  case False
  with assms flushed_sets [of E _ w res pm' w'] show ?thesis
    by (auto simp: addDirectPins_def addPins_def writeLock_def Let_def foldl_directPins_update)
qed

lemma addRecursivePins_memory:
  assumes "addRecursivePins E keys (pm, w) = (res, pm', w')"
  shows "recursivePins pm' =
           foldl (\<lambda>s k. set_add k s) (recursivePins pm)
             (filter (\<lambda>k. k \<notin> set (recursivePins pm)) keys)
         \<and> directPins pm' = directPins pm"
proof (cases "filter (\<lambda>k. k \<notin> set (recursivePins pm)) keys = []")
  case True
  with assms show ?thesis
    by (auto simp: addRecursivePins_def addPins_def writeLock_def Let_def)
next
  case False
  with assms flushed_sets [of E _ w res pm' w'] show ?thesis
    by (auto simp: addRecursivePins_def addPins_def writeLock_def Let_def foldl_recursivePins_update)
qed

text \<open>
  The loop of \<open>rmPins\<close>, in closed form. With the recursive flag a key leaves the
  recursive set at its first occurrence, and the direct set when it is not (or no
  longer) in the recursive set.
\<close>

lemma foldl_rmPin_fields:
  "directPins (foldl (rmPin rec) pm keys) =
     filter (\<lambda>x. \<not> (x \<in> set keys \<and>
                (\<not> rec \<or> x \<notin> set (recursivePins pm) \<or> 1 < count_list keys x)))
       (directPins pm)
   \<and> recursivePins (foldl (rmPin rec) pm keys) =
     (if rec then filter (\<lambda>x. x \<notin> set keys) (recursivePins pm) else recursivePins pm)
   \<and> linkCache (foldl (rmPin rec) pm keys) = linkCache pm
   \<and> lockLog (foldl (rmPin rec) pm keys) = lockLog pm"
proof (induction keys arbitrary: pm)
  case Nil
  show ?case by simp
next
  case (Cons a keys)
  have pos: "(0 < count_list keys x) = (x \<in> set keys)" for x
    using count_list_0_iff [of keys x] by auto
  show ?case
  proof (cases "rec \<and> a \<in> set (recursivePins pm)")
    case True
    then have step: "foldl (rmPin rec) pm (a # keys) =
        foldl (rmPin rec) (pm\<lparr>recursivePins := set_delete a (recursivePins pm)\<rparr>) keys"
      by (simp add: rmPin_def)
    from True Cons.IH [of "pm\<lparr>recursivePins := set_delete a (recursivePins pm)\<rparr>"]
    show ?thesis
      unfolding step by (auto simp: set_delete_def pos intro!: filter_cong)
  next
    case False
    then have step: "foldl (rmPin rec) pm (a # keys) =
        foldl (rmPin rec) (pm\<lparr>directPins := set_delete a (directPins pm)\<rparr>) keys"
      by (auto simp: rmPin_def)
    from False Cons.IH [of "pm\<lparr>directPins := set_delete a (directPins pm)\<rparr>"]
    show ?thesis
      unfolding step by (auto simp: set_delete_def pos intro!: filter_cong)
  qed
qed

lemma foldl_rmPin_eq:
  "foldl (rmPin rec) (writeLock pm) keys =
     pm\<lparr>directPins :=
          filter (\<lambda>x. \<not> (x \<in> set keys \<and>
                (\<not> rec \<or> x \<notin> set (recursivePins pm) \<or> 1 < count_list keys x)))
            (directPins pm),
        recursivePins :=
          (if rec then filter (\<lambda>x. x \<notin> set keys) (recursivePins pm) else recursivePins pm),
        lockLog := lockLog pm @ [WriteLock]\<rparr>"
  using foldl_rmPin_fields [of rec "writeLock pm" keys]
  by (intro pin_manager.equality) (simp_all add: writeLock_def)

lemma flushed_Inl: "(flushed out = (Inl e, st)) = (out = (Inl e, st))"
  by (cases out rule: prod.exhaust; cases "fst out")
     (auto simp: flushed_def split: prod.splits sum.splits)

lemma filter_new_empty: "(filter (\<lambda>k. k \<notin> set s) keys = []) = (set keys \<subseteq> set s)"
  by (auto simp: filter_empty_conv)

subsection \<open>Running the reference environment\<close>

lemmas mgr_defs =
  addDirectPins_def addRecursivePins_def addPins_def rmPins_def rmPin_def flushed_def
  flushPins_def linkTask_def emptyTask_def writeRoot_def directKeys_def recursiveKeys_def
  keyBuffer_def toB58String_def load_def readRoot_def loadSets_def writeLock_def readLock_def
  new_PinManager_def set_add_def set_delete_def new_Set_def isPinnedWithType_def
  isPinnedIndirect_def recursiveCids_def getIndirectKeys_def nodeKeys_def Let_def

lemma ref_env_sel:
  "newCID ref_env = ref_newCID" "cidBuffer ref_env = (\<lambda>c. c)"
  "toBaseEncodedString ref_env = (\<lambda>c. c)" "emptyBuffer ref_env = []"
  "createNode ref_env = (\<lambda>d ls. Inr (Node d ls))" "nodeSize ref_env = ref_size"
  "nodeCid ref_env = (\<lambda>n. Inr (ref_cidOf n))" "dagPut ref_env = ref_put"
  "dagGet ref_env = ref_get" "dagGetRecursive ref_env = ref_getRecursive"
  "storeSet ref_env = ref_storeSet" "loadSet ref_env = ref_loadSet"
  "hasDescendant ref_env =
     (\<lambda>n k w. (Inr (ref_descends (Suc (Suc (Suc (Suc 0)))) (ref_blocks w) n k), w))"
  "repoClosed ref_env = ref_closed"
  "repoOpen ref_env = (\<lambda>w. (Inr (), w\<lparr>ref_closed := False\<rparr>))"
  "datastoreOpen ref_env = (\<lambda>w. (Inr (), w\<lparr>ref_closed := False\<rparr>))"
  "datastoreHas ref_env = (\<lambda>k w. (Inr (ref_datastore w k \<noteq> None), w))"
  "datastoreGet ref_env = ref_datastoreGet" "datastorePut ref_env = ref_datastorePut"
  "errorMessage ref_env = (\<lambda>e. e)"
  by (simp_all add: ref_env_def)

lemmas ref_defs =
  ref_env_sel ref_empty_def ref_newCID_def ref_cidOf_def ref_size_def ref_put_def ref_get_def
  ref_getRecursive_def ref_storeSet_def ref_loadSet_def ref_datastorePut_def
  ref_datastoreGet_def

lemma quiet_ref_env: "quiet ref_env"
  by (auto simp: quiet_def ref_defs split: option.splits)

subsection \<open>Link cache and removal\<close>

text \<open>
  Claim C1. Every operation that changes the membership of the direct (or recursive)
  set drops the \<open>direct\<close> (or \<open>recursive\<close>) entry of the link cache within the same
  write-lock section, removal through \<open>rmPins\<close> included, so that a flush never reuses
  a link computed for other members.

  \<open>_addPins\<close> deletes the entry; \<open>rmPins\<close> does not. The run below pins \<open>QmA\<close>
  directly on a new manager and removes it again. After the removal the direct set
  is empty, the cache still holds the link to the encoding of \<open>{QmA}\<close>, the flush of
  the removal writes the very root the add wrote, and a new manager that loads from
  the same stores has \<open>QmA\<close> pinned directly.
\<close>

theorem rmPins_keeps_stale_link:
  "directPins (fst (snd (rmPins ref_env [''QmA''] False
       (snd (addDirectPins ref_env [''QmA''] (new_PinManager, ref_empty)))))) = []
   \<and> linkCache (fst (snd (rmPins ref_env [''QmA''] False
       (snd (addDirectPins ref_env [''QmA''] (new_PinManager, ref_empty)))))) direct =
       Some \<lparr>Name = direct, Tsize = 1, Hash = ''#/:QmA''\<rparr>
   \<and> ref_blocks (snd (snd (rmPins ref_env [''QmA''] False
       (snd (addDirectPins ref_env [''QmA''] (new_PinManager, ref_empty)))))) ''#/:QmA'' =
       Some (Node [] [\<lparr>Name = [], Tsize = 1, Hash = ''QmA''\<rparr>])
   \<and> fst (rmPins ref_env [''QmA''] False
       (snd (addDirectPins ref_env [''QmA''] (new_PinManager, ref_empty)))) =
     fst (addDirectPins ref_env [''QmA''] (new_PinManager, ref_empty))
   \<and> fst (load ref_env (new_PinManager, snd (snd (rmPins ref_env [''QmA''] False
       (snd (addDirectPins ref_env [''QmA''] (new_PinManager, ref_empty))))))) = Inr ()
   \<and> directPins (fst (snd (load ref_env (new_PinManager, snd (snd (rmPins ref_env [''QmA''] False
       (snd (addDirectPins ref_env [''QmA''] (new_PinManager, ref_empty))))))))) = [''QmA'']"
  by (simp add: mgr_defs ref_defs)

subsection \<open>Queries by type\<close>

text \<open>
  With stores that answer queries without changing, the scan over the recursive roots
  finds a root exactly when one of them has the key below it.
\<close>

lemma detectRoot_quiet:
  assumes "\<forall>c w. snd (dagGet E c w) = w" and "\<forall>n k w. snd (hasDescendant E n k w) = w"
  shows "detectRoot E k cids w = (Inr r, w') \<Longrightarrow>
     w' = w \<and> (case r of None \<Rightarrow> \<forall>c\<in>set cids. \<not> below E k w c
               | Some c \<Rightarrow> c \<in> set cids \<and> below E k w c)"
proof (induction cids)
  case Nil
  then show ?case by simp
next
  case (Cons c cids)
  obtain g where g: "dagGet E c w = (g, w)"
    using assms(1) by (metis prod.collapse)
  show ?case
  proof (cases g)
    case (Inl e)
    with Cons.prems g show ?thesis by simp
  next
    case (Inr node)
    obtain h where h: "hasDescendant E node k w = (h, w)"
      using assms(2) by (metis prod.collapse)
    show ?thesis
    proof (cases h)
      case (Inl e)
      with Cons.prems g Inr h show ?thesis by simp
    next
      case found: (Inr f)
      show ?thesis
      proof (cases f)
        case True
        with Cons.prems g Inr h found show ?thesis
          by (auto simp: below_def)
      next
        case False
        with Cons.prems g Inr h found have "detectRoot E k cids w = (Inr r, w')"
          by simp
        from Cons.IH [OF this] False g Inr h found show ?thesis
          by (auto simp: below_def split: option.splits)
      qed
    qed
  qed
qed

text \<open>
  Claim C2, as the code has it. Let the key \<open>k\<close> of the queried identifier be a
  member of the recursive set and lie below some recursive root \<open>c\<close>. A query of type
  \<open>all\<close> answers pinned with reason \<open>recursive\<close>. A query of type \<open>indirect\<close> does
  not look at the membership of \<open>k\<close> at all: when it returns, it answers pinned, with a
  recursive root that has \<open>k\<close> below it as the reason. (The stores are taken to answer
  queries without changing.)
\<close>

theorem recursive_member_indirect_query:
  assumes "quiet E"
    and "toB58String E multihash = Inr k"
    and "k \<in> set (recursivePins pm)"
    and "recursiveCids E pm = Inr cids"
    and "c \<in> set cids"
    and "below E k w c"
    and "isPinnedWithType E multihash indirect (pm, w) = (Inr res, pm', w')"
  shows "pinned res \<and> (\<exists>c'\<in>set cids. reason res = Some (ByRoot c') \<and> below E k w c')
     \<and> isPinnedWithType E multihash all (pm, w) =
         (Inr \<lparr>key = k, pinned = True, reason = Some (ByType recursive)\<rparr>, pm, w)"
proof -
  have q: "\<forall>c w. snd (dagGet E c w) = w" "\<forall>n k w. snd (hasDescendant E n k w) = w"
    using assms(1) by (simp_all add: quiet_def)
  have rc: "recursiveCids E (readLock pm) = Inr cids"
    using assms(4) by (simp add: recursiveCids_def recursiveKeys_def readLock_def)
  from assms(2,7) rc obtain r w1 where
    det: "detectRoot E k cids w = (Inr r, w1)"
    and res: "res = \<lparr>key = k, pinned = (r \<noteq> None), reason = map_option ByRoot r\<rparr>"
    by (auto simp: isPinnedWithType_def isPinnedIndirect_def Let_def
             split: sum.splits prod.splits)
  from detectRoot_quiet [OF q det] assms(5,6) obtain c' where
    "r = Some c'" "c' \<in> set cids" "below E k w c'"
    by (cases r) auto
  with res assms(2,3) show ?thesis
    by (auto simp: isPinnedWithType_def)
qed

theorem recursive_member_indirect_query_witness:
  "below ref_env ''#x''
      (ref_empty\<lparr>ref_blocks :=
          [''#x'' \<mapsto> Node ''x'' [],
           ''#r/:#x'' \<mapsto> Node ''r'' [\<lparr>Name = [], Tsize = 1, Hash = ''#x''\<rparr>]]\<rparr>) ''#r/:#x''
   \<and> isPinnedWithType ref_env (FromString ''#x'') indirect
       (new_PinManager\<lparr>recursivePins := [''#r/:#x'', ''#x'']\<rparr>,
        ref_empty\<lparr>ref_blocks :=
          [''#x'' \<mapsto> Node ''x'' [],
           ''#r/:#x'' \<mapsto> Node ''r'' [\<lparr>Name = [], Tsize = 1, Hash = ''#x''\<rparr>]]\<rparr>) =
     (Inr \<lparr>key = ''#x'', pinned = True, reason = Some (ByRoot ''#r/:#x'')\<rparr>,
      new_PinManager\<lparr>recursivePins := [''#r/:#x'', ''#x''], lockLog := [ReadLock]\<rparr>,
      ref_empty\<lparr>ref_blocks :=
          [''#x'' \<mapsto> Node ''x'' [],
           ''#r/:#x'' \<mapsto> Node ''r'' [\<lparr>Name = [], Tsize = 1, Hash = ''#x''\<rparr>]]\<rparr>)
   \<and> isPinnedWithType ref_env (FromString ''#x'') all
       (new_PinManager\<lparr>recursivePins := [''#r/:#x'', ''#x'']\<rparr>,
        ref_empty\<lparr>ref_blocks :=
          [''#x'' \<mapsto> Node ''x'' [],
           ''#r/:#x'' \<mapsto> Node ''r'' [\<lparr>Name = [], Tsize = 1, Hash = ''#x''\<rparr>]]\<rparr>) =
     (Inr \<lparr>key = ''#x'', pinned = True, reason = Some (ByType recursive)\<rparr>,
      new_PinManager\<lparr>recursivePins := [''#r/:#x'', ''#x'']\<rparr>,
      ref_empty\<lparr>ref_blocks :=
          [''#x'' \<mapsto> Node ''x'' [],
           ''#r/:#x'' \<mapsto> Node ''r'' [\<lparr>Name = [], Tsize = 1, Hash = ''#x''\<rparr>]]\<rparr>)"
proof -
  let ?w = "ref_empty\<lparr>ref_blocks :=
          [''#x'' \<mapsto> Node ''x'' [],
           ''#r/:#x'' \<mapsto> Node ''r'' [\<lparr>Name = [], Tsize = 1, Hash = ''#x''\<rparr>]]\<rparr>"
  let ?pm = "new_PinManager\<lparr>recursivePins := [''#r/:#x'', ''#x'']\<rparr> :: string pin_manager"
  have k: "toB58String ref_env (FromString ''#x'') = Inr ''#x''"
    by (simp add: toB58String_def ref_defs)
  have m: "''#x'' \<in> set (recursivePins ?pm)"
    by simp
  have cs: "recursiveCids ref_env ?pm = Inr [''#r/:#x'', ''#x'']"
    by (simp add: mgr_defs ref_defs)
  have c: "''#r/:#x'' \<in> set [''#r/:#x'', ''#x'']"
    by simp
  have b: "below ref_env ''#x'' ?w ''#r/:#x''"
    by (simp add: below_def ref_defs)
  have q: "isPinnedWithType ref_env (FromString ''#x'') indirect (?pm, ?w) =
     (Inr \<lparr>key = ''#x'', pinned = True, reason = Some (ByRoot ''#r/:#x'')\<rparr>,
      new_PinManager\<lparr>recursivePins := [''#r/:#x'', ''#x''], lockLog := [ReadLock]\<rparr>, ?w)"
    by (simp add: mgr_defs ref_defs)
  from recursive_member_indirect_query [OF quiet_ref_env k m cs c b q] b q
  show ?thesis by simp
qed

text \<open>
  The claim as worded, that the \<open>indirect\<close> query answers not pinned for such a key,
  fails: \<open>#x\<close> and its parent \<open>#r/:#x\<close> are both pinned recursively, and the
  \<open>indirect\<close> query for \<open>#x\<close> answers pinned through \<open>#r/:#x\<close>.
\<close>

theorem recursive_member_indirect_counterexample:
  "recursivePins (fst (snd (addRecursivePins ref_env [''#r/:#x'', ''#x'']
       (new_PinManager,
        ref_empty\<lparr>ref_blocks :=
          [''#x'' \<mapsto> Node ''x'' [],
           ''#r/:#x'' \<mapsto> Node ''r'' [\<lparr>Name = [], Tsize = 1, Hash = ''#x''\<rparr>]]\<rparr>)))) =
     [''#r/:#x'', ''#x'']
   \<and> fst (isPinnedWithType ref_env (FromString ''#x'') indirect
       (snd (addRecursivePins ref_env [''#r/:#x'', ''#x'']
          (new_PinManager,
           ref_empty\<lparr>ref_blocks :=
             [''#x'' \<mapsto> Node ''x'' [],
              ''#r/:#x'' \<mapsto> Node ''r'' [\<lparr>Name = [], Tsize = 1, Hash = ''#x''\<rparr>]]\<rparr>)))) =
     Inr \<lparr>key = ''#x'', pinned = True, reason = Some (ByRoot ''#r/:#x'')\<rparr>"
  by (simp add: mgr_defs ref_defs)

text \<open>
  Claim C6. The fast paths of \<open>isPinnedWithType\<close>, in their order, for an identifier
  whose canonical key is \<open>k\<close>: type \<open>recursive\<close> or \<open>all\<close> with \<open>k\<close> in the recursive
  set answers pinned, reason \<open>recursive\<close>; type \<open>recursive\<close> with \<open>k\<close> not in it answers
  not pinned; type \<open>direct\<close> or \<open>all\<close> with \<open>k\<close> in the direct set (and the first step not
  taken) answers pinned, reason \<open>direct\<close>; type \<open>direct\<close> with \<open>k\<close> not in it answers not
  pinned. Each answer leaves the manager, its lock record included, and the stores as
  they were: no lock is taken.
\<close>

theorem isPinnedWithType_fast_paths:
  assumes "toB58String E multihash = Inr k"
  shows "((type = recursive \<or> type = all) \<and> k \<in> set (recursivePins pm) \<longrightarrow>
            isPinnedWithType E multihash type (pm, w) =
              (Inr \<lparr>key = k, pinned = True, reason = Some (ByType recursive)\<rparr>, pm, w))
       \<and> (type = recursive \<and> k \<notin> set (recursivePins pm) \<longrightarrow>
            isPinnedWithType E multihash type (pm, w) =
              (Inr \<lparr>key = k, pinned = False, reason = None\<rparr>, pm, w))
       \<and> ((type = direct \<or> type = all) \<and> k \<in> set (directPins pm)
            \<and> \<not> (type = all \<and> k \<in> set (recursivePins pm)) \<longrightarrow>
            isPinnedWithType E multihash type (pm, w) =
              (Inr \<lparr>key = k, pinned = True, reason = Some (ByType direct)\<rparr>, pm, w))
       \<and> (type = direct \<and> k \<notin> set (directPins pm) \<longrightarrow>
            isPinnedWithType E multihash type (pm, w) =
              (Inr \<lparr>key = k, pinned = False, reason = None\<rparr>, pm, w))"
  using assms by (auto simp: isPinnedWithType_def)

theorem isPinnedWithType_fast_paths_witness:
  "isPinnedWithType ref_env (FromString ''QmR'') all
       (new_PinManager\<lparr>directPins := [''QmD''], recursivePins := [''QmR'']\<rparr>, ref_empty) =
     (Inr \<lparr>key = ''QmR'', pinned = True, reason = Some (ByType recursive)\<rparr>,
      new_PinManager\<lparr>directPins := [''QmD''], recursivePins := [''QmR'']\<rparr>, ref_empty)
   \<and> isPinnedWithType ref_env (FromString ''QmD'') recursive
       (new_PinManager\<lparr>directPins := [''QmD''], recursivePins := [''QmR'']\<rparr>, ref_empty) =
     (Inr \<lparr>key = ''QmD'', pinned = False, reason = None\<rparr>,
      new_PinManager\<lparr>directPins := [''QmD''], recursivePins := [''QmR'']\<rparr>, ref_empty)
   \<and> isPinnedWithType ref_env (FromString ''QmD'') all
       (new_PinManager\<lparr>directPins := [''QmD''], recursivePins := [''QmR'']\<rparr>, ref_empty) =
     (Inr \<lparr>key = ''QmD'', pinned = True, reason = Some (ByType direct)\<rparr>,
      new_PinManager\<lparr>directPins := [''QmD''], recursivePins := [''QmR'']\<rparr>, ref_empty)
   \<and> isPinnedWithType ref_env (FromString ''QmR'') direct
       (new_PinManager\<lparr>directPins := [''QmD''], recursivePins := [''QmR'']\<rparr>, ref_empty) =
     (Inr \<lparr>key = ''QmR'', pinned = False, reason = None\<rparr>,
      new_PinManager\<lparr>directPins := [''QmD''], recursivePins := [''QmR'']\<rparr>, ref_empty)"
proof -
  have r: "toB58String ref_env (FromString ''QmR'') = Inr ''QmR''"
    and d: "toB58String ref_env (FromString ''QmD'') = Inr ''QmD''"
    by (simp_all add: toB58String_def ref_defs)
  show ?thesis
    using isPinnedWithType_fast_paths [OF r, of all
        "new_PinManager\<lparr>directPins := [''QmD''], recursivePins := [''QmR'']\<rparr>" ref_empty]
      isPinnedWithType_fast_paths [OF d, of recursive
        "new_PinManager\<lparr>directPins := [''QmD''], recursivePins := [''QmR'']\<rparr>" ref_empty]
      isPinnedWithType_fast_paths [OF d, of all
        "new_PinManager\<lparr>directPins := [''QmD''], recursivePins := [''QmR'']\<rparr>" ref_empty]
      isPinnedWithType_fast_paths [OF r, of direct
        "new_PinManager\<lparr>directPins := [''QmD''], recursivePins := [''QmR'']\<rparr>" ref_empty]
    by (simp add: new_PinManager_def)
qed

subsection \<open>The indirect keys\<close>

text \<open>The loop filters and inserts root by root; the candidates are filtered at the end.\<close>

lemma eachRoot_candidateKeys:
  "eachRoot E rpins bufs acc w =
     (case candidateKeys E bufs w of
        (Inl e, w') \<Rightarrow> (Inl e, w')
      | (Inr ks, w') \<Rightarrow>
          (Inr (foldl (\<lambda>s k. set_add k s) acc (filter (\<lambda>k. k \<notin> set rpins) ks)), w'))"
  by (induction bufs arbitrary: acc w) (auto split: prod.splits sum.splits)

text \<open>
  Claim C3. \<open>getIndirectKeys\<close> returns exactly the candidate keys, the addresses of all
  nodes in the closures of the recursive roots, without those that are members of the
  recursive set; no member of the recursive set is in the result. It returns whenever
  the keys convert and the closures are fetched.
\<close>

theorem getIndirectKeys_excludes_recursive:
  "(getIndirectKeys E (pm, w) = (Inr ks, pm', w') \<longrightarrow>
      (\<exists>bufs cands. recursiveKeys E pm = Inr bufs \<and> candidateKeys E bufs w = (Inr cands, w')
         \<and> set ks = set cands - set (recursivePins pm)
         \<and> set ks \<inter> set (recursivePins pm) = {} \<and> distinct ks))
   \<and> (recursiveKeys E pm = Inr bufs \<and> candidateKeys E bufs w = (Inr cands, w') \<longrightarrow>
      (\<exists>ks. getIndirectKeys E (pm, w) = (Inr ks, readLock pm, w')
         \<and> set ks = set cands - set (recursivePins pm)))"
proof -
  have rk: "recursiveKeys E (readLock pm) = recursiveKeys E pm"
    by (simp add: recursiveKeys_def readLock_def)
  have rp: "recursivePins (readLock pm) = recursivePins pm"
    by (simp add: readLock_def)
  have d: "distinct (foldl (\<lambda>s k. set_add k s) [] xs)" for xs
    by (rule distinct_foldl_set_add) simp
  show ?thesis
    by (auto simp: getIndirectKeys_def Let_def rk rp eachRoot_candidateKeys set_foldl_set_add d
             split: sum.splits prod.splits)
qed

theorem getIndirectKeys_excludes_recursive_witness:
  "fst (getIndirectKeys ref_env
       (new_PinManager\<lparr>recursivePins := [''#r/:#x/:#y'', ''#x'']\<rparr>,
        ref_empty\<lparr>ref_blocks :=
          [''#x'' \<mapsto> Node ''x'' [], ''#y'' \<mapsto> Node ''y'' [],
           ''#r/:#x/:#y'' \<mapsto>
             Node ''r'' [\<lparr>Name = [], Tsize = 1, Hash = ''#x''\<rparr>,
                         \<lparr>Name = [], Tsize = 1, Hash = ''#y''\<rparr>]]\<rparr>)) = Inr [''#y'']
   \<and> fst (candidateKeys ref_env [''#r/:#x/:#y'', ''#x'']
       (ref_empty\<lparr>ref_blocks :=
          [''#x'' \<mapsto> Node ''x'' [], ''#y'' \<mapsto> Node ''y'' [],
           ''#r/:#x/:#y'' \<mapsto>
             Node ''r'' [\<lparr>Name = [], Tsize = 1, Hash = ''#x''\<rparr>,
                         \<lparr>Name = [], Tsize = 1, Hash = ''#y''\<rparr>]]\<rparr>)) =
       Inr [''#r/:#x/:#y'', ''#x'', ''#y'', ''#x'']"
proof -
  let ?w = "ref_empty\<lparr>ref_blocks :=
          [''#x'' \<mapsto> Node ''x'' [], ''#y'' \<mapsto> Node ''y'' [],
           ''#r/:#x/:#y'' \<mapsto>
             Node ''r'' [\<lparr>Name = [], Tsize = 1, Hash = ''#x''\<rparr>,
                         \<lparr>Name = [], Tsize = 1, Hash = ''#y''\<rparr>]]\<rparr>"
  let ?pm = "new_PinManager\<lparr>recursivePins := [''#r/:#x/:#y'', ''#x'']\<rparr> :: string pin_manager"
  have rk: "recursiveKeys ref_env ?pm = Inr [''#r/:#x/:#y'', ''#x'']"
    by (simp add: mgr_defs ref_defs)
  have ck: "candidateKeys ref_env [''#r/:#x/:#y'', ''#x''] ?w =
      (Inr [''#r/:#x/:#y'', ''#x'', ''#y'', ''#x''], ?w)"
    by (simp add: mgr_defs ref_defs)
  note t = getIndirectKeys_excludes_recursive [of ref_env ?pm ?w _ _ ?w
      "[''#r/:#x/:#y'', ''#x'']" "[''#r/:#x/:#y'', ''#x'', ''#y'', ''#x'']",
      THEN conjunct2, THEN mp, OF conjI, OF rk ck]
  have e: "fst (getIndirectKeys ref_env (?pm, ?w)) = Inr [''#y'']"
    by (simp add: mgr_defs ref_defs)
  from t e ck show ?thesis by simp
qed

subsection \<open>Adding keys\<close>

text \<open>
  Claim C4. Adding keys that are all in the target set already, through
  \<open>addDirectPins\<close> or \<open>addRecursivePins\<close>, is no error: the result is the empty array,
  both sets and the link cache are as before, and the stores are untouched, so nothing
  was flushed and the persisted root is the same. Only the write lock was taken.
\<close>

theorem addPins_present_is_noop:
  "(set keys \<subseteq> set (directPins pm) \<longrightarrow>
      addDirectPins E keys (pm, w) =
        (Inr EmptyArray, pm\<lparr>lockLog := lockLog pm @ [WriteLock]\<rparr>, w))
   \<and> (set keys \<subseteq> set (recursivePins pm) \<longrightarrow>
      addRecursivePins E keys (pm, w) =
        (Inr EmptyArray, pm\<lparr>lockLog := lockLog pm @ [WriteLock]\<rparr>, w))"
proof -
  have "filter (\<lambda>k. k \<notin> set s) keys = []" if "set keys \<subseteq> set s" for s :: "string list"
    using that by (auto simp: filter_empty_conv)
  then show ?thesis
    by (simp add: addDirectPins_def addRecursivePins_def addPins_def writeLock_def Let_def)
qed

theorem addPins_present_is_noop_witness:
  "addDirectPins ref_env [''QmA'', ''QmA'']
       (new_PinManager\<lparr>directPins := [''QmA'']\<rparr>, ref_empty) =
     (Inr EmptyArray,
      new_PinManager\<lparr>directPins := [''QmA''], lockLog := [WriteLock]\<rparr>, ref_empty)
   \<and> addRecursivePins ref_env [''QmB'']
       (new_PinManager\<lparr>recursivePins := [''QmA'', ''QmB'']\<rparr>, ref_empty) =
     (Inr EmptyArray,
      new_PinManager\<lparr>recursivePins := [''QmA'', ''QmB''], lockLog := [WriteLock]\<rparr>, ref_empty)"
  using addPins_present_is_noop [of "[''QmA'', ''QmA'']"
      "new_PinManager\<lparr>directPins := [''QmA'']\<rparr>" ref_env ref_empty]
    addPins_present_is_noop [of "[''QmB'']"
      "new_PinManager\<lparr>recursivePins := [''QmA'', ''QmB'']\<rparr>" ref_env ref_empty]
  by (simp add: new_PinManager_def)

text \<open>
  Claim C10. \<open>addDirectPins\<close> and \<open>addRecursivePins\<close> insert the key string as given,
  while \<open>isPinnedWithType\<close> looks up the canonical string \<open>c\<close> of its argument. So
  when a key \<open>k\<close> with \<open>c \<noteq> k\<close> is added, \<open>k\<close> itself is in the set afterwards, and the
  fast-path answer for \<open>k\<close> is what the membership of \<open>c\<close> was before the add: the
  added key is not found.
\<close>

theorem noncanonical_key_not_found:
  assumes "toB58String E (FromString k) = Inr c" and "c \<noteq> k"
    and "toB58String E multihash = Inr c"
  shows "(addDirectPins E [k] (pm, w) = (res, pm', w') \<longrightarrow>
            set (directPins pm') = insert k (set (directPins pm))
          \<and> isPinnedWithType E multihash direct (pm', w') =
              (Inr \<lparr>key = c, pinned = (c \<in> set (directPins pm)),
                    reason = (if c \<in> set (directPins pm) then Some (ByType direct) else None)\<rparr>,
               pm', w'))
       \<and> (addRecursivePins E [k] (pm, w) = (res, pm', w') \<longrightarrow>
            set (recursivePins pm') = insert k (set (recursivePins pm))
          \<and> isPinnedWithType E multihash recursive (pm', w') =
              (Inr \<lparr>key = c, pinned = (c \<in> set (recursivePins pm)),
                    reason = (if c \<in> set (recursivePins pm) then Some (ByType recursive) else None)\<rparr>,
               pm', w'))"
proof -
  have d: "set (directPins pm') = insert k (set (directPins pm))
          \<and> isPinnedWithType E multihash direct (pm', w') =
              (Inr \<lparr>key = c, pinned = (c \<in> set (directPins pm)),
                    reason = (if c \<in> set (directPins pm) then Some (ByType direct) else None)\<rparr>,
               pm', w')"
    if a: "addDirectPins E [k] (pm, w) = (res, pm', w')"
  proof -
    from addDirectPins_memory [OF a]
    have "set (directPins pm') = insert k (set (directPins pm))"
      by (auto simp: set_foldl_set_add)
    with assms show ?thesis
      by (auto simp: isPinnedWithType_def)
  qed
  have r: "set (recursivePins pm') = insert k (set (recursivePins pm))
          \<and> isPinnedWithType E multihash recursive (pm', w') =
              (Inr \<lparr>key = c, pinned = (c \<in> set (recursivePins pm)),
                    reason = (if c \<in> set (recursivePins pm) then Some (ByType recursive) else None)\<rparr>,
               pm', w')"
    if a: "addRecursivePins E [k] (pm, w) = (res, pm', w')"
  proof -
    from addRecursivePins_memory [OF a]
    have "set (recursivePins pm') = insert k (set (recursivePins pm))"
      by (auto simp: set_foldl_set_add)
    with assms show ?thesis
      by (auto simp: isPinnedWithType_def)
  qed
  from d r show ?thesis by blast
qed

theorem noncanonical_key_not_found_witness:
  "toB58String ref_env (FromString ''zQmA'') = Inr ''QmA''
   \<and> toB58String ref_env (FromBuffer ''QmA'') = Inr ''QmA''
   \<and> set (directPins (fst (snd (addDirectPins ref_env [''zQmA''] (new_PinManager, ref_empty)))))
       = {''zQmA''}
   \<and> fst (isPinnedWithType ref_env (FromString ''zQmA'') direct
            (snd (addDirectPins ref_env [''zQmA''] (new_PinManager, ref_empty)))) =
       Inr \<lparr>key = ''QmA'', pinned = False, reason = None\<rparr>
   \<and> fst (isPinnedWithType ref_env (FromBuffer ''QmA'') direct
            (snd (addDirectPins ref_env [''zQmA''] (new_PinManager, ref_empty)))) =
       Inr \<lparr>key = ''QmA'', pinned = False, reason = None\<rparr>"
proof -
  let ?out = "addDirectPins ref_env [''zQmA''] (new_PinManager, ref_empty)"
  have c: "toB58String ref_env (FromString ''zQmA'') = Inr ''QmA''"
    and b: "toB58String ref_env (FromBuffer ''QmA'') = Inr ''QmA''"
    by (simp_all add: toB58String_def ref_defs)
  have ne: "''QmA'' \<noteq> ''zQmA''"
    by simp
  have o: "?out = (fst ?out, fst (snd ?out), snd (snd ?out))"
    by simp
  note t = noncanonical_key_not_found [OF c ne c, of new_PinManager ref_empty "fst ?out"
      "fst (snd ?out)" "snd (snd ?out)", THEN conjunct1, THEN mp, OF o]
  note u = noncanonical_key_not_found [OF c ne b, of new_PinManager ref_empty "fst ?out"
      "fst (snd ?out)" "snd (snd ?out)", THEN conjunct1, THEN mp, OF o]
  from c b t [THEN conjunct1] t [THEN conjunct2] u [THEN conjunct2] show ?thesis
    by (simp add: new_PinManager_def)
qed

subsection \<open>Validation of the pin type\<close>

text \<open>
  Claim C7. \<open>checkPinType\<close> accepts a value exactly when it is one of the four strings
  \<open>direct\<close>, \<open>recursive\<close>, \<open>indirect\<close>, \<open>all\<close>; every other string and every value that
  is not a string yields the error with code \<open>ERR_INVALID_PIN_TYPE\<close> carrying the
  value, with no store read and no lock taken.

  The code does so for the four strings, for every other string, and for every other
  value that converts to a string. For a value that does not, it throws instead of
  returning the error, against its own comment (\<open>Returns an error if the pin type is
  invalid\<close>): a symbol, or an object such as \<open>Object.create(null)\<close>, takes the
  invalid-type branch, and the template literal of \<open>invalidPinTypeErr\<close> throws a
  \<open>TypeError\<close> there.
\<close>

theorem checkPinType_outcome:
  "checkPinType v =
     (if v = JString direct \<or> v = JString recursive \<or> v = JString indirect \<or> v = JString all
      then Inr None
      else (case template v of
              Inl x \<Rightarrow> Inl x
            | Inr r \<Rightarrow>
                Inr (Some \<lparr>message = ''Invalid type '' @ [CHR 0x27] @ r @ [CHR 0x27]
                                 @ '', must be one of {direct, indirect, recursive, all}'',
                            code = ''ERR_INVALID_PIN_TYPE''\<rparr>)))
   \<and> checkPinType (JSymbol ''all'') = Inl TypeError
   \<and> checkPinType (JObject (Inl TypeError)) = Inl TypeError"
proof -
  have "checkPinType v =
     (if v = JString direct \<or> v = JString recursive \<or> v = JString indirect \<or> v = JString all
      then Inr None
      else (case template v of
              Inl x \<Rightarrow> Inl x
            | Inr r \<Rightarrow>
                Inr (Some \<lparr>message = ''Invalid type '' @ [CHR 0x27] @ r @ [CHR 0x27]
                                 @ '', must be one of {direct, indirect, recursive, all}'',
                            code = ''ERR_INVALID_PIN_TYPE''\<rparr>)))"
    by (cases v)
       (auto simp: checkPinType_def array_includes_def PinTypes_def invalidPinTypeErr_def
             split: sum.splits)
  moreover have "checkPinType (JSymbol ''all'') = Inl TypeError"
    and "checkPinType (JObject (Inl TypeError)) = Inl TypeError"
    by (simp_all add: checkPinType_def invalidPinTypeErr_def)
  ultimately show ?thesis by blast
qed

theorem checkPinType_outcome_witness:
  "checkPinType (JString ''all'') = Inr None
   \<and> checkPinType (JString ''pinned'') =
       Inr (Some \<lparr>message = ''Invalid type '' @ [CHR 0x27] @ ''pinned'' @ [CHR 0x27]
                    @ '', must be one of {direct, indirect, recursive, all}'',
                   code = ''ERR_INVALID_PIN_TYPE''\<rparr>)
   \<and> checkPinType JUndefined =
       Inr (Some \<lparr>message = ''Invalid type '' @ [CHR 0x27] @ ''undefined'' @ [CHR 0x27]
                    @ '', must be one of {direct, indirect, recursive, all}'',
                   code = ''ERR_INVALID_PIN_TYPE''\<rparr>)
   \<and> checkPinType (JObject (Inr ''direct'')) =
       Inr (Some \<lparr>message = ''Invalid type '' @ [CHR 0x27] @ ''direct'' @ [CHR 0x27]
                    @ '', must be one of {direct, indirect, recursive, all}'',
                   code = ''ERR_INVALID_PIN_TYPE''\<rparr>)
   \<and> checkPinType (JSymbol ''all'') = Inl TypeError"
  using checkPinType_outcome [of "JString ''all''"]
    checkPinType_outcome [of "JString ''pinned''"]
    checkPinType_outcome [of JUndefined]
    checkPinType_outcome [of "JObject (Inr ''direct'')"]
  by simp

subsection \<open>Loading without a root\<close>




subsection \<open>A failing flush\<close>

text \<open>
  Claim C9. In \<open>addDirectPins\<close>, \<open>addRecursivePins\<close> and \<open>rmPins\<close> the sets are changed
  before the flush runs, and a failing flush is reported and not undone. The operation
  reports the failure \<open>e\<close> exactly when it had something to do (a key not yet in the
  set; for \<open>rmPins\<close>, any key) and the one flush it runs, on the manager whose sets are
  changed already, fails with \<open>e\<close>; the manager it leaves is the one that flush
  leaves, and its sets are the changed ones. Nothing is rolled back and nothing is
  tried again. For \<open>rmPins\<close> the changed sets are, with the recursive flag, the
  recursive set without the keys and the direct set without the keys that were not in
  the recursive set or occur more than once; without the flag, the direct set without
  the keys.
\<close>

theorem failed_flush_keeps_mutation:
  "((addDirectPins E keys (pm, w) = (Inl e, pm', w')) =
      (\<not> set keys \<subseteq> set (directPins pm) \<and>
       flushPins E
         (pm\<lparr>lockLog := lockLog pm @ [WriteLock],
             linkCache := (linkCache pm)(direct := None),
             directPins :=
               foldl (\<lambda>s k. set_add k s) (directPins pm)
                 (filter (\<lambda>k. k \<notin> set (directPins pm)) keys)\<rparr>, w) = (Inl e, pm', w')))
   \<and> (addDirectPins E keys (pm, w) = (Inl e, pm', w') \<longrightarrow>
        set (directPins pm') = set (directPins pm) \<union> set keys
        \<and> recursivePins pm' = recursivePins pm)
   \<and> ((addRecursivePins E keys (pm, w) = (Inl e, pm', w')) =
      (\<not> set keys \<subseteq> set (recursivePins pm) \<and>
       flushPins E
         (pm\<lparr>lockLog := lockLog pm @ [WriteLock],
             linkCache := (linkCache pm)(recursive := None),
             recursivePins :=
               foldl (\<lambda>s k. set_add k s) (recursivePins pm)
                 (filter (\<lambda>k. k \<notin> set (recursivePins pm)) keys)\<rparr>, w) = (Inl e, pm', w')))
   \<and> (addRecursivePins E keys (pm, w) = (Inl e, pm', w') \<longrightarrow>
        set (recursivePins pm') = set (recursivePins pm) \<union> set keys
        \<and> directPins pm' = directPins pm)
   \<and> ((rmPins E keys rec (pm, w) = (Inl e, pm', w')) =
      (keys \<noteq> [] \<and>
       flushPins E
         (pm\<lparr>directPins :=
               filter (\<lambda>x. \<not> (x \<in> set keys \<and>
                   (\<not> rec \<or> x \<notin> set (recursivePins pm) \<or> 1 < count_list keys x)))
                 (directPins pm),
             recursivePins :=
               (if rec then filter (\<lambda>x. x \<notin> set keys) (recursivePins pm)
                else recursivePins pm),
             lockLog := lockLog pm @ [WriteLock]\<rparr>, w) = (Inl e, pm', w')))
   \<and> (rmPins E keys rec (pm, w) = (Inl e, pm', w') \<longrightarrow>
        directPins pm' =
          filter (\<lambda>x. \<not> (x \<in> set keys \<and>
              (\<not> rec \<or> x \<notin> set (recursivePins pm) \<or> 1 < count_list keys x)))
            (directPins pm)
        \<and> recursivePins pm' =
          (if rec then filter (\<lambda>x. x \<notin> set keys) (recursivePins pm)
           else recursivePins pm))"
proof -
  let ?d = "pm\<lparr>lockLog := lockLog pm @ [WriteLock],
             linkCache := (linkCache pm)(direct := None),
             directPins :=
               foldl (\<lambda>s k. set_add k s) (directPins pm)
                 (filter (\<lambda>k. k \<notin> set (directPins pm)) keys)\<rparr>"
  let ?r = "pm\<lparr>lockLog := lockLog pm @ [WriteLock],
             linkCache := (linkCache pm)(recursive := None),
             recursivePins :=
               foldl (\<lambda>s k. set_add k s) (recursivePins pm)
                 (filter (\<lambda>k. k \<notin> set (recursivePins pm)) keys)\<rparr>"
  let ?m = "pm\<lparr>directPins :=
               filter (\<lambda>x. \<not> (x \<in> set keys \<and>
                   (\<not> rec \<or> x \<notin> set (recursivePins pm) \<or> 1 < count_list keys x)))
                 (directPins pm),
             recursivePins :=
               (if rec then filter (\<lambda>x. x \<notin> set keys) (recursivePins pm)
                else recursivePins pm),
             lockLog := lockLog pm @ [WriteLock]\<rparr>"
  have d: "(addDirectPins E keys (pm, w) = (Inl e, pm', w')) =
      (\<not> set keys \<subseteq> set (directPins pm) \<and> flushPins E (?d, w) = (Inl e, pm', w'))"
  proof (cases "set keys \<subseteq> set (directPins pm)")
    case True
    then show ?thesis
      by (simp add: addDirectPins_def addPins_def writeLock_def Let_def filter_new_empty)
  next
    case False
    then show ?thesis
      by (simp add: addDirectPins_def addPins_def writeLock_def Let_def filter_new_empty
            foldl_directPins_update flushed_Inl)
  qed
  have r: "(addRecursivePins E keys (pm, w) = (Inl e, pm', w')) =
      (\<not> set keys \<subseteq> set (recursivePins pm) \<and> flushPins E (?r, w) = (Inl e, pm', w'))"
  proof (cases "set keys \<subseteq> set (recursivePins pm)")
    case True
    then show ?thesis
      by (simp add: addRecursivePins_def addPins_def writeLock_def Let_def filter_new_empty)
  next
    case False
    then show ?thesis
      by (simp add: addRecursivePins_def addPins_def writeLock_def Let_def filter_new_empty
            foldl_recursivePins_update flushed_Inl)
  qed
  have m: "(rmPins E keys rec (pm, w) = (Inl e, pm', w')) =
      (keys \<noteq> [] \<and> flushPins E (?m, w) = (Inl e, pm', w'))"
    by (simp add: rmPins_def foldl_rmPin_eq flushed_Inl)
  have ds: "set (directPins pm') = set (directPins pm) \<union> set keys
        \<and> recursivePins pm' = recursivePins pm"
    if "addDirectPins E keys (pm, w) = (Inl e, pm', w')"
  proof -
    from that d have "flushPins E (?d, w) = (Inl e, pm', w')" by simp
    from flushPins_sets [OF this] show ?thesis
      by (auto simp: set_foldl_set_add)
  qed
  have rs: "set (recursivePins pm') = set (recursivePins pm) \<union> set keys
        \<and> directPins pm' = directPins pm"
    if "addRecursivePins E keys (pm, w) = (Inl e, pm', w')"
  proof -
    from that r have "flushPins E (?r, w) = (Inl e, pm', w')" by simp
    from flushPins_sets [OF this] show ?thesis
      by (auto simp: set_foldl_set_add)
  qed
  have ms: "directPins pm' = directPins ?m \<and> recursivePins pm' = recursivePins ?m"
    if "rmPins E keys rec (pm, w) = (Inl e, pm', w')"
  proof -
    from that m have "flushPins E (?m, w) = (Inl e, pm', w')" by simp
    from flushPins_sets [OF this] show ?thesis by simp
  qed
  from d r m ds rs ms show ?thesis by simp
qed

theorem failed_flush_keeps_mutation_witness:
  "fst (addDirectPins ref_env [''QmA''] (new_PinManager, ref_empty\<lparr>ref_readOnly := True\<rparr>)) =
     Inl (CallbackError ''read-only datastore'')
   \<and> set (directPins (fst (snd (addDirectPins ref_env [''QmA'']
            (new_PinManager, ref_empty\<lparr>ref_readOnly := True\<rparr>))))) = {''QmA''}
   \<and> ref_datastore (snd (snd (addDirectPins ref_env [''QmA'']
            (new_PinManager, ref_empty\<lparr>ref_readOnly := True\<rparr>)))) PIN_DS_KEY = None
   \<and> fst (addRecursivePins ref_env [''QmB'']
            (new_PinManager, ref_empty\<lparr>ref_readOnly := True\<rparr>)) =
     Inl (CallbackError ''read-only datastore'')
   \<and> set (recursivePins (fst (snd (addRecursivePins ref_env [''QmB'']
            (new_PinManager, ref_empty\<lparr>ref_readOnly := True\<rparr>))))) = {''QmB''}
   \<and> fst (rmPins ref_env [''QmR'', ''QmD''] True
            (new_PinManager\<lparr>directPins := [''QmD'', ''QmE''], recursivePins := [''QmR'']\<rparr>,
             ref_empty\<lparr>ref_readOnly := True\<rparr>)) =
     Inl (CallbackError ''read-only datastore'')
   \<and> recursivePins (fst (snd (rmPins ref_env [''QmR'', ''QmD''] True
            (new_PinManager\<lparr>directPins := [''QmD'', ''QmE''], recursivePins := [''QmR'']\<rparr>,
             ref_empty\<lparr>ref_readOnly := True\<rparr>)))) = []
   \<and> directPins (fst (snd (rmPins ref_env [''QmR'', ''QmD''] True
            (new_PinManager\<lparr>directPins := [''QmD'', ''QmE''], recursivePins := [''QmR'']\<rparr>,
             ref_empty\<lparr>ref_readOnly := True\<rparr>)))) = [''QmE'']"
proof -
  let ?w = "ref_empty\<lparr>ref_readOnly := True\<rparr>"
  let ?e = "CallbackError ''read-only datastore'' :: string failure"
  let ?pm = "new_PinManager\<lparr>directPins := [''QmD'', ''QmE''], recursivePins := [''QmR'']\<rparr>
     :: string pin_manager"
  let ?a = "addDirectPins ref_env [''QmA''] (new_PinManager, ?w)"
  let ?b = "addRecursivePins ref_env [''QmB''] (new_PinManager, ?w)"
  let ?c = "rmPins ref_env [''QmR'', ''QmD''] True (?pm, ?w)"
  have a: "?a = (Inl ?e, fst (snd ?a), snd (snd ?a))"
    by (rule failed_flush_keeps_mutation [THEN conjunct1, THEN iffD2])
       (simp add: mgr_defs ref_defs)
  have b: "?b = (Inl ?e, fst (snd ?b), snd (snd ?b))"
    by (rule failed_flush_keeps_mutation
          [THEN conjunct2, THEN conjunct2, THEN conjunct1, THEN iffD2])
       (simp add: mgr_defs ref_defs)
  have c: "?c = (Inl ?e, fst (snd ?c), snd (snd ?c))"
    by (rule failed_flush_keeps_mutation
          [THEN conjunct2, THEN conjunct2, THEN conjunct2, THEN conjunct2, THEN conjunct1,
           THEN iffD2])
       (simp add: mgr_defs ref_defs)
  note sa = failed_flush_keeps_mutation [THEN conjunct2, THEN conjunct1, THEN mp, OF a]
  note sb = failed_flush_keeps_mutation
      [THEN conjunct2, THEN conjunct2, THEN conjunct2, THEN conjunct1, THEN mp, OF b]
  note sc = failed_flush_keeps_mutation
      [THEN conjunct2, THEN conjunct2, THEN conjunct2, THEN conjunct2, THEN conjunct2,
       THEN mp, OF c]
  have fa: "fst ?a = Inl ?e" by (subst a) simp
  have fb: "fst ?b = Inl ?e" by (subst b) simp
  have fc: "fst ?c = Inl ?e" by (subst c) simp
  have d: "ref_datastore (snd (snd ?a)) PIN_DS_KEY = None"
    by (simp add: mgr_defs ref_defs)
  from sa have 1: "set (directPins (fst (snd ?a))) = {''QmA''}"
    by (simp add: new_PinManager_def)
  from sb have 2: "set (recursivePins (fst (snd ?b))) = {''QmB''}"
    by (simp add: new_PinManager_def)
  from sc have 3: "recursivePins (fst (snd ?c)) = []" and 4: "directPins (fst (snd ?c)) = [''QmE'']"
    by (simp_all add: new_PinManager_def)
  from fa fb fc d 1 2 3 4 show ?thesis by blast
qed

subsection \<open>Flush, then load\<close>

lemma later_trans: "later E b c \<Longrightarrow> later E a b \<Longrightarrow> later E a c"
  by (induction rule: later.induct) (simp, rule later_step)

lemma later_write: "writes E w w' \<Longrightarrow> later E w w'"
  by (rule later_step [OF later_refl])

lemma map_throwing_Inr:
  "map_throwing f xs = Inr ys \<Longrightarrow> list_all2 (\<lambda>x y. f x = Inr y) xs ys"
  by (induction xs arbitrary: ys) (auto split: sum.splits)

lemma map_throwing_total:
  "\<forall>x\<in>set xs. \<exists>y. f x = Inr y \<Longrightarrow> \<exists>ys. map_throwing f xs = Inr ys"
  by (induction xs) (auto split: sum.splits)

lemma set_new_Set: "set (new_Set xs) = set xs"
  by (simp add: new_Set_def set_foldl_set_add)

lemma list_all2_right: "list_all2 P xs ys \<Longrightarrow> y \<in> set ys \<Longrightarrow> \<exists>x\<in>set xs. P x y"
  by (induction rule: list_all2_induct) auto

lemma list_all2_left: "list_all2 P xs ys \<Longrightarrow> x \<in> set xs \<Longrightarrow> \<exists>y\<in>set ys. P x y"
  by (induction rule: list_all2_induct) auto

text \<open>Canonical keys come back from their buffers, in whatever order the codec returns them.\<close>

lemma reload_keys:
  assumes kb: "map_throwing (keyBuffer E) ks = Inr bufs"
    and canon: "\<forall>k\<in>set ks. canonical E k"
    and same: "set bs = set bufs"
  shows "\<exists>ds. map_throwing (\<lambda>b. toB58String E (FromBuffer b)) bs = Inr ds \<and> set ds = set ks"
proof -
  from map_throwing_Inr [OF kb]
  have l: "list_all2 (\<lambda>k b. keyBuffer E k = Inr b) ks bufs" .
  have canon_back: "toB58String E (FromBuffer b) = Inr k" if "keyBuffer E k = Inr b" "k \<in> set ks" for k b
    using that canon by (auto simp: canonical_def)
  have 1: "\<exists>k\<in>set ks. toB58String E (FromBuffer b) = Inr k" if "b \<in> set bufs" for b
  proof -
    from list_all2_right [OF l that] obtain k where "k \<in> set ks" "keyBuffer E k = Inr b"
      by blast
    with canon_back show ?thesis by blast
  qed
  have 2: "\<exists>b\<in>set bufs. toB58String E (FromBuffer b) = Inr k" if "k \<in> set ks" for k
  proof -
    from list_all2_left [OF l that] obtain b where "b \<in> set bufs" "keyBuffer E k = Inr b"
      by blast
    with canon_back that show ?thesis by blast
  qed
  from 1 same have "\<forall>b\<in>set bs. \<exists>y. toB58String E (FromBuffer b) = Inr y"
    by blast
  from map_throwing_total [OF this] obtain ds
    where ds: "map_throwing (\<lambda>b. toB58String E (FromBuffer b)) bs = Inr ds"
    by blast
  from map_throwing_Inr [OF ds]
  have m: "list_all2 (\<lambda>b d. toB58String E (FromBuffer b) = Inr d) bs ds" .
  have "set ds = set ks"
  proof (intro equalityI subsetI)
    fix d assume "d \<in> set ds"
    from list_all2_right [OF m this]
    obtain b where b: "b \<in> set bs" "toB58String E (FromBuffer b) = Inr d"
      by blast
    with same 1 show "d \<in> set ks" by force
  next
    fix k assume "k \<in> set ks"
    with 2 same obtain b where b: "b \<in> set bs" "toB58String E (FromBuffer b) = Inr k"
      by blast
    from list_all2_left [OF m b(1)]
    obtain d where "d \<in> set ds" "toB58String E (FromBuffer b) = Inr d"
      by blast
    with b show "k \<in> set ds" by simp
  qed
  with ds show ?thesis by blast
qed

text \<open>What a successful link task returns: a link of the right name to an encoding of the
  current members that the store it leaves is later than.\<close>

lemma linkTask_link:
  assumes t: "linkTask E name keys (pm, w) = (Inr l, pm1, w1)"
    and f: "fresh_entry E name (keys pm) pm w"
  shows "Name l = name \<and> later E w w1
     \<and> (\<exists>bufs w0 node wa. keys pm = Inr bufs \<and>
           storeSet E bufs name w0 = (Inr (node, Hash l), wa) \<and> later E wa w1)
     \<and> (\<forall>other. other \<noteq> name \<longrightarrow> linkCache pm1 other = linkCache pm other)"
proof (cases "linkCache pm name")
  case (Some c)
  with t have "l = c" "pm1 = pm" "w1 = w"
    by (simp_all add: linkTask_def)
  with f Some show ?thesis
    by (auto simp: fresh_entry_def intro: later_refl)
next
  case None
  with t obtain bufs where k: "keys pm = Inr bufs"
    by (auto simp: linkTask_def split: sum.splits)
  with t None obtain node cid where
    s: "storeSet E bufs name w = (Inr (node, cid), w1)"
    and l: "l = \<lparr>Name = name, Tsize = nodeSize E node, Hash = cid\<rparr>"
    and p: "pm1 = pm\<lparr>linkCache := (linkCache pm)(name \<mapsto> l)\<rparr>"
    by (auto simp: linkTask_def Let_def split: sum.splits prod.splits)
  from s have "writes E w w1"
    unfolding writes_def by (metis snd_conv)
  then have "later E w w1" by (rule later_write)
  moreover from s l have "storeSet E bufs name w = (Inr (node, Hash l), w1)" by simp
  ultimately show ?thesis
    using k l p by (auto intro: later_refl)
qed

lemma fresh_entry_later:
  assumes "fresh_entry E name keys pm w" and "later E w w1"
    and "linkCache pm1 name = linkCache pm name"
  shows "fresh_entry E name keys pm1 w1"
proof (cases "linkCache pm name")
  case None
  with assms(3) show ?thesis by (simp add: fresh_entry_def)
next
  case (Some l)
  with assms(1) obtain bufs w0 node wa where
    "keys = Inr bufs" "storeSet E bufs name w0 = (Inr (node, Hash l), wa)"
    "later E wa w" "Name l = name"
    by (auto simp: fresh_entry_def)
  moreover from \<open>later E wa w\<close> assms(2) have "later E wa w1"
    by (rule later_trans [rotated])
  ultimately show ?thesis
    using Some assms(3) by (auto simp: fresh_entry_def)
qed

lemma emptyTask_later: "emptyTask E w = (t, w') \<Longrightarrow> later E w w'"
proof (cases "createNode E (emptyBuffer E) []")
  case (Inl e)
  assume "emptyTask E w = (t, w')"
  with Inl have "w' = w" by (simp add: emptyTask_def)
  then show ?thesis by (simp add: later_refl)
next
  case (Inr n)
  assume "emptyTask E w = (t, w')"
  with Inr have "snd (dagPut E n w) = w'"
    by (auto simp: emptyTask_def split: prod.splits sum.splits)
  then have "writes E w w'"
    unfolding writes_def by blast
  then show ?thesis by (rule later_write)
qed

lemma writeRoot_Inr:
  assumes "writeRoot E dLink rLink w = (Inr root, w')"
  shows "\<exists>node cid w1 w2. root = (node, cidBuffer E cid)
     \<and> createNode E (emptyBuffer E) [dLink, rLink] = Inr node
     \<and> dagPut E node w = (Inr cid, w1) \<and> later E w w1 \<and> later E w1 w'
     \<and> datastorePut E PIN_DS_KEY (cidBuffer E cid) w2 = (Inr (), w')"
proof -
  from assms obtain node where n: "createNode E (emptyBuffer E) [dLink, rLink] = Inr node"
    by (auto simp: writeRoot_def split: sum.splits)
  with assms obtain cid w1 where p: "dagPut E node w = (Inr cid, w1)"
    by (auto simp: writeRoot_def split: sum.splits prod.splits)
  let ?o = "if repoClosed E w1 then repoOpen E w1 else (Inr (), w1)"
  from assms n p obtain u w2 where o: "?o = (Inr u, w2)"
    by (auto simp: writeRoot_def split: sum.splits prod.splits)
  with assms n p have d: "datastorePut E PIN_DS_KEY (cidBuffer E cid) w2 = (Inr (), w')"
    and r: "root = (node, cidBuffer E cid)"
    by (auto simp: writeRoot_def split: sum.splits prod.splits)
  from p have "writes E w w1"
    unfolding writes_def by (metis snd_conv)
  then have l1: "later E w w1" by (rule later_write)
  from o have "w2 = w1 \<or> snd (repoOpen E w1) = w2"
    by (auto split: if_splits)
  then have l2: "later E w1 w2"
    by (auto simp: writes_def intro: later_refl later_write)
  from d have "writes E w2 w'"
    unfolding writes_def by (metis snd_conv)
  with l2 have "later E w1 w'" by (rule later_step)
  with n p d r l1 show ?thesis by blast
qed

lemma contract_quiet: "store_contract E \<Longrightarrow> quiet E"
  by (simp add: store_contract_def)

lemma contract_dag:
  assumes "store_contract E" and "dagPut E n w = (Inr c, w1)" and "later E w1 w2"
  shows "\<exists>c'. newCID E (FromBuffer (cidBuffer E c)) = Inr c' \<and> fst (dagGet E c' w2) = Inr n"
  using assms(1) [unfolded store_contract_def, THEN conjunct2, THEN conjunct1, rule_format,
      OF conjI [OF assms(2) assms(3)]] .

lemma contract_datastore:
  assumes "store_contract E" and "datastorePut E k v w = (Inr (), w1)"
  shows "fst (datastoreHas E k w1) = Inr True \<and> fst (datastoreGet E k w1) = Inr v"
  using assms(1) [unfolded store_contract_def, THEN conjunct2, THEN conjunct2, THEN conjunct1,
      rule_format, OF assms(2)] .

lemma contract_codec:
  assumes "store_contract E" and "storeSet E bufs name w = (Inr (node, c), w1)"
    and "later E w1 w2" and "createNode E d links = Inr root"
    and "find (\<lambda>l. Name l = name) links = Some l" and "Hash l = c"
  shows "\<exists>bs. fst (loadSet E root name w2) = Inr bs \<and> set bs = set bufs"
  using assms(1) [unfolded store_contract_def, THEN conjunct2, THEN conjunct2, THEN conjunct2,
      rule_format,
      OF conjI [OF assms(2) conjI [OF assms(3) conjI [OF assms(4) conjI [OF assms(5) assms(6)]]]]] .

text \<open>The reference environment keeps the contract: its blocks are never overwritten.\<close>

lemma ref_put_blocks: "ref_blocks w \<subseteq>\<^sub>m ref_blocks (snd (ref_put n w))"
  by (auto simp: ref_put_def map_le_def split: option.splits)

lemma ref_put_Inr: "ref_put n w = (Inr c, w1) \<Longrightarrow> ref_blocks w1 c = Some n"
  by (auto simp: ref_put_def split: option.splits if_splits)

lemma ref_put_cid: "ref_put n w = (Inr c, w1) \<Longrightarrow> c = ref_cidOf n"
  by (auto simp: ref_put_def split: option.splits if_splits)

lemma ref_storeSet_blocks: "ref_blocks w \<subseteq>\<^sub>m ref_blocks (snd (ref_storeSet bufs name w))"
proof -
  let ?n = "Node [] (map (\<lambda>b. \<lparr>Name = [], Tsize = 1, Hash = b\<rparr>) bufs)"
  have "snd (ref_storeSet bufs name w) = snd (ref_put ?n w)"
    by (simp add: ref_storeSet_def split: prod.splits sum.splits)
  with ref_put_blocks [of w ?n] show ?thesis by simp
qed

lemma ref_writes_blocks: "writes ref_env w w' \<Longrightarrow> ref_blocks w \<subseteq>\<^sub>m ref_blocks w'"
  unfolding writes_def ref_env_sel
  using ref_put_blocks ref_storeSet_blocks
  by (auto simp: ref_datastorePut_def)

lemma ref_later_blocks: "later ref_env w w' \<Longrightarrow> ref_blocks w \<subseteq>\<^sub>m ref_blocks w'"
  by (induction rule: later.induct) (auto dest: ref_writes_blocks intro: map_le_trans)

lemma ref_env_contract: "store_contract ref_env"
  unfolding store_contract_def
proof (intro conjI allI impI)
  show "quiet ref_env" by (rule quiet_ref_env)
next
  fix n w c w1 w2
  assume a: "dagPut ref_env n w = (Inr c, w1) \<and> later ref_env w1 w2"
  then have p: "ref_put n w = (Inr c, w1)" by (simp add: ref_env_sel)
  note c = ref_put_cid [OF p] ref_put_Inr [OF p]
  from a ref_later_blocks have "ref_blocks w1 \<subseteq>\<^sub>m ref_blocks w2" by blast
  with c(2) have "ref_blocks w2 c = Some n"
    by (auto simp: map_le_def dom_def)
  moreover from c(1) have "c \<noteq> []" by (simp add: ref_cidOf_def)
  ultimately show "\<exists>c'. newCID ref_env (FromBuffer (cidBuffer ref_env c)) = Inr c'
      \<and> fst (dagGet ref_env c' w2) = Inr n"
    by (simp add: ref_env_sel ref_newCID_def ref_get_def)
next
  fix k v w w1
  assume "datastorePut ref_env k v w = (Inr (), w1)"
  then show "fst (datastoreHas ref_env k w1) = Inr True"
    and "fst (datastoreGet ref_env k w1) = Inr v"
    by (auto simp: ref_env_sel ref_datastorePut_def ref_datastoreGet_def split: if_splits)
next
  fix bufs name w node c w1 w2 d links root l
  assume a: "storeSet ref_env bufs name w = (Inr (node, c), w1) \<and> later ref_env w1 w2 \<and>
       createNode ref_env d links = Inr root \<and>
       find (\<lambda>l. Name l = name) links = Some l \<and> Hash l = c"
  let ?n = "Node [] (map (\<lambda>b. \<lparr>Name = [], Tsize = 1, Hash = b\<rparr>) bufs)"
  from a have "ref_storeSet bufs name w = (Inr (node, c), w1)" by (simp add: ref_env_sel)
  then have p: "ref_put ?n w = (Inr c, w1)" and n: "node = ?n"
    by (auto simp: ref_storeSet_def split: prod.splits sum.splits)
  note ref_put_Inr [OF p]
  moreover from a ref_later_blocks have "ref_blocks w1 \<subseteq>\<^sub>m ref_blocks w2" by blast
  ultimately have "ref_blocks w2 c = Some ?n"
    by (auto simp: map_le_def dom_def)
  moreover from a have "root = Node d links" by (auto simp: ref_env_sel)
  ultimately have "fst (loadSet ref_env root name w2) = Inr bufs"
    using a by (simp add: ref_env_sel ref_loadSet_def comp_def)
  then show "\<exists>bs. fst (loadSet ref_env root name w2) = Inr bs \<and> set bs = set bufs"
    by simp
qed

text \<open>
  Claim C5, as the code has it. Let the stores keep their contract (a node or a
  datastore value that was written is read back, queries change nothing, \<open>loadSet\<close>
  inverts \<open>storeSet\<close>), let every key in the two sets be canonical, and let every entry
  of the link cache be fresh. If a flush succeeds and leaves the repository open, then
  \<open>load\<close> on a new manager over the stores the flush left succeeds, and the direct and
  recursive sets it builds have the members the flushed manager had.
\<close>

theorem flush_load_round_trip:
  assumes contract: "store_contract E"
    and canon: "\<forall>k\<in>set (directPins pm) \<union> set (recursivePins pm). canonical E k"
    and cache: "fresh_cache E pm w"
    and flush: "flushPins E (pm, w) = (Inr root, pm', w')"
    and opened: "\<not> repoClosed E w'"
  shows "fst (load E (new_PinManager, w')) = Inr ()
     \<and> set (directPins (fst (snd (load E (new_PinManager, w'))))) = set (directPins pm)
     \<and> set (recursivePins (fst (snd (load E (new_PinManager, w'))))) = set (recursivePins pm)
     \<and> snd (snd (load E (new_PinManager, w'))) = w'"
proof -
  obtain d pm1 w1 where t1: "linkTask E direct (directKeys E) (pm, w) = (d, pm1, w1)"
    by (cases "linkTask E direct (directKeys E) (pm, w)") auto
  obtain r pm2 w2 where t2: "linkTask E recursive (recursiveKeys E) (pm1, w1) = (r, pm2, w2)"
    by (cases "linkTask E recursive (recursiveKeys E) (pm1, w1)") auto
  obtain t w3 where t3: "emptyTask E w2 = (t, w3)"
    by (cases "emptyTask E w2") auto
  from flush t1 t2 t3 obtain dLink rLink where
    d: "d = Inr dLink" and r: "r = Inr rLink"
    and wr: "writeRoot E dLink rLink w3 = (Inr root, w')"
    by (auto simp: flushPins_def split: sum.splits failure.splits prod.splits)
  from cache have fd: "fresh_entry E direct (directKeys E pm) pm w"
    and fr: "fresh_entry E recursive (recursiveKeys E pm) pm w"
    by (simp_all add: fresh_cache_def)
  from linkTask_link [OF t1 [unfolded d] fd] obtain dbufs wd0 dnode wd where
    nd: "Name dLink = direct" and l1: "later E w w1"
    and dk: "directKeys E pm = Inr dbufs"
    and sd: "storeSet E dbufs direct wd0 = (Inr (dnode, Hash dLink), wd)"
    and ld: "later E wd w1"
    and c1: "linkCache pm1 recursive = linkCache pm recursive"
    by auto
  have rk1: "recursiveKeys E pm1 = recursiveKeys E pm"
    using linkTask_sets [OF t1] by (simp add: recursiveKeys_def)
  from fresh_entry_later [OF fr l1 c1] rk1
  have fr1: "fresh_entry E recursive (recursiveKeys E pm1) pm1 w1" by simp
  from linkTask_link [OF t2 [unfolded r] fr1] rk1 obtain rbufs wr0 rnode wrr where
    nr: "Name rLink = recursive" and l2: "later E w1 w2"
    and rk: "recursiveKeys E pm = Inr rbufs"
    and sr: "storeSet E rbufs recursive wr0 = (Inr (rnode, Hash rLink), wrr)"
    and lr: "later E wrr w2"
    by auto
  from emptyTask_later [OF t3] have l3: "later E w2 w3" .
  from writeRoot_Inr [OF wr] obtain node cid w4 w5 where
    cn: "createNode E (emptyBuffer E) [dLink, rLink] = Inr node"
    and put: "dagPut E node w3 = (Inr cid, w4)"
    and l4: "later E w3 w4" and l5: "later E w4 w'"
    and ds: "datastorePut E PIN_DS_KEY (cidBuffer E cid) w5 = (Inr (), w')"
    by blast
  have ld': "later E wd w'"
    by (rule later_trans [OF l5 later_trans [OF l4 later_trans [OF l3 later_trans [OF l2 ld]]]])
  have lr': "later E wrr w'"
    by (rule later_trans [OF l5 later_trans [OF l4 later_trans [OF l3 lr]]])
  note q = contract_quiet [OF contract]
  note k1 = contract_dag [OF contract]
  note k2 = contract_datastore [OF contract]
  note k3 = contract_codec [OF contract]
  from q have qs: "\<And>c w. snd (dagGet E c w) = w" "\<And>n name w. snd (loadSet E n name w) = w"
    "\<And>k w. snd (datastoreHas E k w) = w" "\<And>k w. snd (datastoreGet E k w) = w"
    by (simp_all add: quiet_def)
  from k2 [OF ds] qs have has: "datastoreHas E PIN_DS_KEY w' = (Inr True, w')"
    and get: "datastoreGet E PIN_DS_KEY w' = (Inr (cidBuffer E cid), w')"
    by (simp_all add: prod_eq_iff)
  from k1 [OF put l5] qs obtain c' where
    c': "newCID E (FromBuffer (cidBuffer E cid)) = Inr c'" and dg: "dagGet E c' w' = (Inr node, w')"
    by (auto simp: prod_eq_iff)
  from opened has get c' dg have rr: "readRoot E w' = (Inr (Some node), w')"
    by (simp add: readRoot_def)
  have "find (\<lambda>l. Name l = direct) [dLink, rLink] = Some dLink"
    using nd by simp
  from k3 [OF sd ld' cn this refl] qs obtain bsd where
    lsd: "loadSet E node direct w' = (Inr bsd, w')" and bsd: "set bsd = set dbufs"
    by (auto simp: prod_eq_iff)
  have "find (\<lambda>l. Name l = recursive) [dLink, rLink] = Some rLink"
    using nd nr by simp
  from k3 [OF sr lr' cn this refl] qs obtain bsr where
    lsr: "loadSet E node recursive w' = (Inr bsr, w')" and bsr: "set bsr = set rbufs"
    by (auto simp: prod_eq_iff)
  from reload_keys [OF dk [unfolded directKeys_def] _ bsd] canon obtain dks where
    dks: "map_throwing (\<lambda>b. toB58String E (FromBuffer b)) bsd = Inr dks"
    and dset: "set dks = set (directPins pm)"
    by auto
  from reload_keys [OF rk [unfolded recursiveKeys_def] _ bsr] canon obtain rks where
    rks: "map_throwing (\<lambda>b. toB58String E (FromBuffer b)) bsr = Inr rks"
    and rset: "set rks = set (recursivePins pm)"
    by auto
  from rr lsd lsr dks rks
  have "load E (new_PinManager, w') =
      (Inr (), (writeLock new_PinManager)\<lparr>directPins := new_Set dks, recursivePins := new_Set rks\<rparr>, w')"
    by (simp add: load_def loadSets_def Let_def)
  with dset rset show ?thesis
    by (simp add: set_new_Set)
qed

theorem flush_load_round_trip_witness:
  "canonical ref_env ''QmA'' \<and> canonical ref_env ''QmB''
   \<and> fst (flushPins ref_env
       (new_PinManager\<lparr>directPins := [''QmA''], recursivePins := [''QmB'']\<rparr>, ref_empty)) =
     Inr (Node [] [\<lparr>Name = direct, Tsize = 1, Hash = ''#/:QmA''\<rparr>,
                   \<lparr>Name = recursive, Tsize = 1, Hash = ''#/:QmB''\<rparr>],
          ''#/direct:#/:QmA/recursive:#/:QmB'')
   \<and> fst (load ref_env (new_PinManager, snd (snd (flushPins ref_env
       (new_PinManager\<lparr>directPins := [''QmA''], recursivePins := [''QmB'']\<rparr>, ref_empty))))) =
     Inr ()
   \<and> set (directPins (fst (snd (load ref_env (new_PinManager, snd (snd (flushPins ref_env
       (new_PinManager\<lparr>directPins := [''QmA''], recursivePins := [''QmB'']\<rparr>, ref_empty))))))))
     = {''QmA''}
   \<and> set (recursivePins (fst (snd (load ref_env (new_PinManager, snd (snd (flushPins ref_env
       (new_PinManager\<lparr>directPins := [''QmA''], recursivePins := [''QmB'']\<rparr>, ref_empty))))))))
     = {''QmB''}"
proof -
  let ?pm = "new_PinManager\<lparr>directPins := [''QmA''], recursivePins := [''QmB'']\<rparr> :: string pin_manager"
  let ?out = "flushPins ref_env (?pm, ref_empty)"
  have ca: "canonical ref_env ''QmA''" and cb: "canonical ref_env ''QmB''"
    by (simp_all add: canonical_def keyBuffer_def toB58String_def ref_defs)
  then have canon: "\<forall>k\<in>set (directPins ?pm) \<union> set (recursivePins ?pm). canonical ref_env k"
    by simp
  have cache: "fresh_cache ref_env ?pm ref_empty"
    by (simp add: fresh_cache_def fresh_entry_def new_PinManager_def)
  have f: "fst ?out = Inr (Node [] [\<lparr>Name = direct, Tsize = 1, Hash = ''#/:QmA''\<rparr>,
                   \<lparr>Name = recursive, Tsize = 1, Hash = ''#/:QmB''\<rparr>],
          ''#/direct:#/:QmA/recursive:#/:QmB'')"
    by (simp add: mgr_defs ref_defs)
  then have flush: "?out = (Inr (Node [] [\<lparr>Name = direct, Tsize = 1, Hash = ''#/:QmA''\<rparr>,
                   \<lparr>Name = recursive, Tsize = 1, Hash = ''#/:QmB''\<rparr>],
          ''#/direct:#/:QmA/recursive:#/:QmB''), fst (snd ?out), snd (snd ?out))"
    by (metis prod.collapse)
  have opened: "\<not> repoClosed ref_env (snd (snd ?out))"
    by (simp add: mgr_defs ref_defs)
  from flush_load_round_trip [OF ref_env_contract canon cache flush opened] ca cb f
  show ?thesis by simp
qed

text \<open>
  For arbitrary contents of the sets the round trip fails, although \<open>loadSet\<close> inverts
  \<open>storeSet\<close>. A direct set holding the key \<open>zQmA\<close>, which is not canonical, is flushed
  and comes back as \<open>QmA\<close>. And the manager left by adding \<open>QmA\<close> and removing it again
  has an empty direct set and a link-cache entry that is not fresh: its flush writes
  the link to \<open>{QmA}\<close>, and the new manager loads \<open>QmA\<close>.
\<close>

theorem flush_load_round_trip_counterexample:
  "store_contract ref_env
   \<and> fst (flushPins ref_env (new_PinManager\<lparr>directPins := [''zQmA'']\<rparr>, ref_empty)) =
     Inr (Node [] [\<lparr>Name = direct, Tsize = 1, Hash = ''#/:QmA''\<rparr>,
                   \<lparr>Name = recursive, Tsize = 0, Hash = ''#''\<rparr>],
          ''#/direct:#/:QmA/recursive:#'')
   \<and> fst (load ref_env (new_PinManager, snd (snd (flushPins ref_env
        (new_PinManager\<lparr>directPins := [''zQmA'']\<rparr>, ref_empty))))) = Inr ()
   \<and> directPins (fst (snd (load ref_env (new_PinManager, snd (snd (flushPins ref_env
        (new_PinManager\<lparr>directPins := [''zQmA'']\<rparr>, ref_empty))))))) = [''QmA'']
   \<and> set (directPins (fst (snd (load ref_env (new_PinManager, snd (snd (flushPins ref_env
        (new_PinManager\<lparr>directPins := [''zQmA'']\<rparr>, ref_empty)))))))) \<noteq> set [''zQmA'']
   \<and> directPins (fst (snd (rmPins ref_env [''QmA''] False
        (snd (addDirectPins ref_env [''QmA''] (new_PinManager, ref_empty)))))) = []
   \<and> fst (flushPins ref_env (snd (rmPins ref_env [''QmA''] False
        (snd (addDirectPins ref_env [''QmA''] (new_PinManager, ref_empty)))))) =
     Inr (Node [] [\<lparr>Name = direct, Tsize = 1, Hash = ''#/:QmA''\<rparr>,
                   \<lparr>Name = recursive, Tsize = 0, Hash = ''#''\<rparr>],
          ''#/direct:#/:QmA/recursive:#'')
   \<and> directPins (fst (snd (load ref_env (new_PinManager,
        snd (snd (flushPins ref_env (snd (rmPins ref_env [''QmA''] False
          (snd (addDirectPins ref_env [''QmA''] (new_PinManager, ref_empty)))))))))))
     = [''QmA'']"
proof -
  have "fst (flushPins ref_env (new_PinManager\<lparr>directPins := [''zQmA'']\<rparr>, ref_empty)) =
     Inr (Node [] [\<lparr>Name = direct, Tsize = 1, Hash = ''#/:QmA''\<rparr>,
                   \<lparr>Name = recursive, Tsize = 0, Hash = ''#''\<rparr>],
          ''#/direct:#/:QmA/recursive:#'')
   \<and> fst (load ref_env (new_PinManager, snd (snd (flushPins ref_env
        (new_PinManager\<lparr>directPins := [''zQmA'']\<rparr>, ref_empty))))) = Inr ()
   \<and> directPins (fst (snd (load ref_env (new_PinManager, snd (snd (flushPins ref_env
        (new_PinManager\<lparr>directPins := [''zQmA'']\<rparr>, ref_empty))))))) = [''QmA'']"
    by (simp add: mgr_defs ref_defs)
  moreover
  have "directPins (fst (snd (rmPins ref_env [''QmA''] False
        (snd (addDirectPins ref_env [''QmA''] (new_PinManager, ref_empty)))))) = []
   \<and> fst (flushPins ref_env (snd (rmPins ref_env [''QmA''] False
        (snd (addDirectPins ref_env [''QmA''] (new_PinManager, ref_empty)))))) =
     Inr (Node [] [\<lparr>Name = direct, Tsize = 1, Hash = ''#/:QmA''\<rparr>,
                   \<lparr>Name = recursive, Tsize = 0, Hash = ''#''\<rparr>],
          ''#/direct:#/:QmA/recursive:#'')
   \<and> directPins (fst (snd (load ref_env (new_PinManager,
        snd (snd (flushPins ref_env (snd (rmPins ref_env [''QmA''] False
          (snd (addDirectPins ref_env [''QmA''] (new_PinManager, ref_empty)))))))))))
     = [''QmA'']"
    by (simp add: mgr_defs ref_defs)
  ultimately show ?thesis
    using ref_env_contract by simp
qed

end
